theory Spec2Isabelle
  imports Main "HOL-Library.Word"
begin

section \<open>pkg/gke/request.go: the cluster-creation request\<close>

text \<open>
  Go strings are byte strings and are modelled as \<^typ>\<open>string\<close>; \<open>int64\<close> is a
  64-bit word read as a signed number with \<^const>\<open>sint\<close>. Pointers to freshly built
  structs are modelled by the struct itself, a pointer field that may stay \<open>nil\<close> by an
  \<^typ>\<open>'a option\<close>.
\<close>

record Request =
  GCPCredentialFile :: string
  Project :: string
  GKEVersion :: string
  ReleaseChannel :: string
  ClusterName :: string
  MinNodes :: "64 word"
  MaxNodes :: "64 word"
  NodeType :: string
  Region :: string
  Zone :: string
  Addons :: "string list"
  EnableWorkloadIdentity :: bool
  ServiceAccount :: string

definition defaultGKEVersion :: string where
  "defaultGKEVersion = ''latest''"

text \<open>\<open>Request.DeepCopy\<close>: the composite literal names twelve of the thirteen fields;
  the field it does not name, \<open>GCPCredentialFile\<close>, gets Go's zero value, the empty string.\<close>

definition DeepCopy :: "Request \<Rightarrow> Request" where
  "DeepCopy r =
     \<lparr> GCPCredentialFile = [],
       Project = Project r,
       GKEVersion = GKEVersion r,
       ReleaseChannel = ReleaseChannel r,
       ClusterName = ClusterName r,
       MinNodes = MinNodes r,
       MaxNodes = MaxNodes r,
       NodeType = NodeType r,
       Region = Region r,
       Zone = Zone r,
       Addons = Addons r,
       EnableWorkloadIdentity = EnableWorkloadIdentity r,
       ServiceAccount = ServiceAccount r \<rparr>"

text \<open>
  The part of the \<open>container/v1beta1\<close> SDK structs that \<open>NewCreateClusterRequest\<close>
  fills in. Fields the function never sets keep their zero value and are left out.
  The addons configuration is built by \<open>GetAddonsConfig\<close>, a function declared in
  another file of this package: it is a parameter of the model and its result type
  \<open>'ac\<close> stays abstract.
\<close>

record NodePoolAutoscaling =
  Enabled :: bool
  MinNodeCount :: "64 word"
  MaxNodeCount :: "64 word"

record NodeConfig =
  MachineType :: string
  OauthScopes :: "string list"
  NodeServiceAccount :: string

record NodePool =
  PoolName :: string
  InitialNodeCount :: "64 word"
  Autoscaling :: NodePoolAutoscaling
  Config :: NodeConfig

record 'ac Cluster =
  NodePools :: "NodePool list"
  Name :: string
  AddonsConfig :: 'ac
  MasterAuthUsername :: string
  WorkloadIdentityConfig :: "string option"
  ClusterReleaseChannel :: "string option"
  InitialClusterVersion :: string

record 'ac CreateClusterRequest =
  Cluster :: "'ac Cluster"

definition CloudPlatformScope :: string where
  "CloudPlatformScope = ''https://www.googleapis.com/auth/cloud-platform''"

text \<open>The request as built by the composite literal, before the three adjustments.\<close>

definition baseCluster :: "(string list \<Rightarrow> 'ac) \<Rightarrow> Request \<Rightarrow> 'ac Cluster" where
  "baseCluster GetAddonsConfig request =
     \<lparr> NodePools =
         [\<lparr> PoolName = ''default-pool'',
            InitialNodeCount = MinNodes request,
            Autoscaling =
              \<lparr> Enabled = True,
                MinNodeCount = MinNodes request,
                MaxNodeCount = MaxNodes request \<rparr>,
            Config =
              \<lparr> MachineType = NodeType request,
                OauthScopes = [CloudPlatformScope],
                NodeServiceAccount = [] \<rparr> \<rparr>],
       Name = ClusterName request,
       AddonsConfig = GetAddonsConfig (Addons request),
       MasterAuthUsername = ''admin'',
       WorkloadIdentityConfig = None,
       ClusterReleaseChannel = None,
       InitialClusterVersion = [] \<rparr>"

text \<open>\<open>ccr.Cluster.NodePools[0].Config.ServiceAccount = request.ServiceAccount\<close>; the
  literal always has a pool at index 0, the empty case is Go's index panic and cannot
  arise.\<close>

fun setPool0ServiceAccount :: "string \<Rightarrow> NodePool list \<Rightarrow> NodePool list" where
  "setPool0ServiceAccount sa [] = []"
| "setPool0ServiceAccount sa (p # ps) =
     p\<lparr>Config := (Config p)\<lparr>NodeServiceAccount := sa\<rparr>\<rparr> # ps"

definition NewCreateClusterRequest ::
  "(string list \<Rightarrow> 'ac) \<Rightarrow> Request \<Rightarrow> string + 'ac CreateClusterRequest" where
  "NewCreateClusterRequest GetAddonsConfig request =
    (if ClusterName request = [] then
       Inl ''cluster name cannot be empty''
     else if sint (MinNodes request) \<le> 0 then
       Inl ''min nodes must be larger than 1''
     else if sint (MinNodes request) > sint (MaxNodes request) then
       Inl ''min nodes cannot be larger than max nodes''
     else if NodeType request = [] then
       Inl ''node type cannot be empty''
     else if EnableWorkloadIdentity request \<and> Project request = [] then
       Inl ''project cannot be empty if you want Workload Identity''
     else if GKEVersion request \<noteq> [] \<and> ReleaseChannel request \<noteq> [] then
       Inl ''can only specify one of GKE version or release channel (not both)''
     else
       let c0 = baseCluster GetAddonsConfig request;
           c1 = (if EnableWorkloadIdentity request
                 then c0\<lparr>WorkloadIdentityConfig := Some (Project request @ ''.svc.id.goog'')\<rparr>
                 else c0);
           c2 = (if ServiceAccount request \<noteq> []
                 then c1\<lparr>NodePools := setPool0ServiceAccount (ServiceAccount request) (NodePools c1)\<rparr>
                 else c1);
           c3 = (if ReleaseChannel request \<noteq> []
                 then c2\<lparr>ClusterReleaseChannel := Some (ReleaseChannel request)\<rparr>
                 else if GKEVersion request \<noteq> []
                 then c2\<lparr>InitialClusterVersion := GKEVersion request\<rparr>
                 else c2\<lparr>InitialClusterVersion := defaultGKEVersion\<rparr>)
       in Inr \<lparr> Cluster = c3 \<rparr>)"

text \<open>A minimal valid request: one to three \<open>e2-standard-4\<close> nodes, nothing else set.\<close>

definition minimalRequest :: Request where
  "minimalRequest =
     \<lparr> GCPCredentialFile = ''/etc/creds.json'',
       Project = [],
       GKEVersion = [],
       ReleaseChannel = [],
       ClusterName = ''c1'',
       MinNodes = 1,
       MaxNodes = 3,
       NodeType = ''e2-standard-4'',
       Region = [],
       Zone = [],
       Addons = [],
       EnableWorkloadIdentity = False,
       ServiceAccount = [] \<rparr>"


section \<open>tools/config-generator/testgrid_config.go: strings and constants\<close>

abbreviation dq :: char where "dq \<equiv> CHR 0x22"
abbreviation nl :: char where "nl \<equiv> CHR 0x0A"

definition testgridTabGroupByDir :: string where
  "testgridTabGroupByDir =
     ''exclude-filter-by-regex=Overall$&group-by-directory=&expand-groups=&sort-by-name=''"

definition testgridTabGroupByTarget :: string where
  "testgridTabGroupByTarget =
     ''exclude-filter-by-regex=Overall$&group-by-target=&expand-groups=&sort-by-name=''"

definition testgridTabSortByName :: string where
  "testgridTabSortByName = ''sort-by-name=''"

definition testgridTabSortByFailures :: string where
  "testgridTabSortByFailures = ''sort-by-failures=''"

text \<open>
  What the file uses and other files of the package declare is gathered in one record
  of parameters: \<open>isReleased\<close>, the test \<open>releaseRegex.FindString(projName)\<close>,
  \<open>buildProjRepoStr\<close>, and the constants \<open>baseIndent\<close>, \<open>GCSBucket\<close> and \<open>LogsDir\<close>.
  With them goes the one table of Go's standard library that \<open>strings.ToLower\<close> reads:
  \<open>unicodeLowerCase\<close> is \<open>unicode.To(unicode.LowerCase, r)\<close> for the runes \<open>r\<close> above
  the ASCII range. Nothing is assumed about any of them.
\<close>

record env =
  isReleased :: "string \<Rightarrow> bool"
  releaseRegexFindString :: "string \<Rightarrow> string"
  buildProjRepoStr :: "string \<Rightarrow> string \<Rightarrow> string"
  baseIndent :: string
  GCSBucket :: string
  LogsDir :: string
  unicodeLowerCase :: "nat \<Rightarrow> int"

text \<open>
  \<open>strings.ToLower\<close>. A Go string is a sequence of bytes. On a string of ASCII bytes
  the function lowers the capitals \<open>A\<close> to \<open>Z\<close> (65 to 90) byte by byte; on any other
  string it is \<open>strings.Map(unicode.ToLower, s)\<close>, which decodes the string rune by rune
  as UTF-8, maps each rune and encodes the result, dropping a rune mapped to a negative
  value. \<open>DecodeRuneInString\<close> returns the rune and the number of bytes it took; a byte
  that starts no well-formed sequence gives \<open>RuneError\<close> with width 1. \<open>acceptRange\<close> is
  the table \<open>first\<close> of the package \<open>utf8\<close>: the length of the sequence a leading byte
  announces and the range allowed for the byte after it. \<open>EncodeRune\<close> writes a rune
  as \<open>WriteRune\<close> does, \<open>RuneError\<close> for a surrogate or a value beyond \<open>0x10FFFF\<close>.
\<close>

definition lowerByte :: "char \<Rightarrow> char" where
  "lowerByte c =
     (let n = (of_char c :: nat) in if 65 \<le> n \<and> n \<le> 90 then char_of (n + 32) else c)"

definition RuneError :: nat where
  "RuneError = 0xFFFD"

definition acceptRange :: "nat \<Rightarrow> (nat \<times> nat \<times> nat) option" where
  "acceptRange s0 =
    (if 0xC2 \<le> s0 \<and> s0 \<le> 0xDF then Some (2, 0x80, 0xBF)
     else if s0 = 0xE0 then Some (3, 0xA0, 0xBF)
     else if (0xE1 \<le> s0 \<and> s0 \<le> 0xEC) \<or> s0 = 0xEE \<or> s0 = 0xEF then Some (3, 0x80, 0xBF)
     else if s0 = 0xED then Some (3, 0x80, 0x9F)
     else if s0 = 0xF0 then Some (4, 0x90, 0xBF)
     else if 0xF1 \<le> s0 \<and> s0 \<le> 0xF3 then Some (4, 0x80, 0xBF)
     else if s0 = 0xF4 then Some (4, 0x80, 0x8F)
     else None)"

definition DecodeRuneInString :: "string \<Rightarrow> nat \<times> nat" where
  "DecodeRuneInString s =
    (case s of
       [] \<Rightarrow> (RuneError, 0)
     | c0 # r0 \<Rightarrow>
        (let s0 = (of_char c0 :: nat) in
         if s0 < 0x80 then (s0, 1)
         else
           case acceptRange s0 of
             None \<Rightarrow> (RuneError, 1)
           | Some (sz, lo, hi) \<Rightarrow>
               if length s < sz then (RuneError, 1)
               else
                 (case r0 of
                    [] \<Rightarrow> (RuneError, 1)
                  | c1 # r1 \<Rightarrow>
                     (let s1 = (of_char c1 :: nat) in
                      if s1 < lo \<or> hi < s1 then (RuneError, 1)
                      else if sz \<le> 2 then ((s0 mod 32) * 64 + s1 mod 64, 2)
                      else
                        (case r1 of
                           [] \<Rightarrow> (RuneError, 1)
                         | c2 # r2 \<Rightarrow>
                            (let s2 = (of_char c2 :: nat) in
                             if s2 < 0x80 \<or> 0xBF < s2 then (RuneError, 1)
                             else if sz \<le> 3 then
                               ((s0 mod 16) * 4096 + (s1 mod 64) * 64 + s2 mod 64, 3)
                             else
                               (case r2 of
                                  [] \<Rightarrow> (RuneError, 1)
                                | c3 # r3 \<Rightarrow>
                                   (let s3 = (of_char c3 :: nat) in
                                    if s3 < 0x80 \<or> 0xBF < s3 then (RuneError, 1)
                                    else
                                      ((s0 mod 8) * 262144 + (s1 mod 64) * 4096 +
                                         (s2 mod 64) * 64 + s3 mod 64, 4)))))))))"

definition EncodeRune :: "nat \<Rightarrow> string" where
  "EncodeRune r =
    (if r \<le> 0x7F then [char_of r]
     else if r \<le> 0x7FF then [char_of (0xC0 + r div 64), char_of (0x80 + r mod 64)]
     else if r > 0x10FFFF \<or> (0xD800 \<le> r \<and> r \<le> 0xDFFF) then
       [char_of (0xEF :: nat), char_of (0xBF :: nat), char_of (0xBD :: nat)]
     else if r \<le> 0xFFFF then
       [char_of (0xE0 + r div 4096), char_of (0x80 + (r div 64) mod 64), char_of (0x80 + r mod 64)]
     else
       [char_of (0xF0 + r div 262144), char_of (0x80 + (r div 4096) mod 64),
        char_of (0x80 + (r div 64) mod 64), char_of (0x80 + r mod 64)])"

lemma DecodeRuneInString_width: "s \<noteq> [] \<Longrightarrow> 1 \<le> snd (DecodeRuneInString s)"
  by (auto simp: DecodeRuneInString_def Let_def split: list.splits option.splits)

function strings_Map :: "(nat \<Rightarrow> int) \<Rightarrow> string \<Rightarrow> string" where
  "strings_Map mapping s =
    (if s = [] then []
     else
       (let cw = DecodeRuneInString s;
            r = mapping (fst cw)
        in (if r \<ge> 0 then EncodeRune (nat r) else []) @ strings_Map mapping (drop (snd cw) s)))"
  by pat_completeness auto
termination
proof (relation "measure (\<lambda>(mapping, s). length s)")
  show "wf (measure (\<lambda>(mapping, s). length s))" by simp
next
  fix mapping :: "nat \<Rightarrow> int" and s :: string and cw r
  assume "s \<noteq> []" and "cw = DecodeRuneInString s"
  then have "1 \<le> snd cw" using DecodeRuneInString_width [of s] by simp
  with \<open>s \<noteq> []\<close> show "((mapping, drop (snd cw) s), (mapping, s)) \<in> measure (\<lambda>(mapping, s). length s)"
    by (cases s) auto
qed

declare strings_Map.simps [simp del]

definition unicodeToLower :: "env \<Rightarrow> nat \<Rightarrow> int" where
  "unicodeToLower e r =
    (if r \<le> 0x7F then (if 65 \<le> r \<and> r \<le> 90 then int (r + 32) else int r)
     else unicodeLowerCase e r)"

definition ToLower :: "env \<Rightarrow> string \<Rightarrow> string" where
  "ToLower e s =
    (if list_all (\<lambda>c. (of_char c :: nat) < 0x80) s then map lowerByte s
     else strings_Map (unicodeToLower e) s)"


section \<open>The grouping store\<close>

text \<open>
  Modelled from the spec: the types \<open>JobDetailMap\<close>, \<open>NonAlignedTestGroup\<close> and
  \<open>TestGridMetaData\<close>, the constructor \<open>NewTestGridMetaData\<close>, the method
  \<open>JobDetailMap.EnsureExists\<close> and the helper \<open>strExists\<close> are declared outside this
  file. The spec gives the store as a mapping project \<open>\<rightarrow>\<close> repository \<open>\<rightarrow>\<close> ordered job
  list with two insertion-ordered name lists and the list of non-aligned entries; a
  non-aligned entry as job identifier, tab name, dashboard name, dashboard-group name,
  base options and optional extras; the repo operation as get-or-create of the repo
  entry, returning whether it existed. The field names are the ones this file uses.
\<close>

type_synonym JobDetailMap = "string \<rightharpoonup> string list"

record NonAlignedTestGroup =
  CIJobName :: string
  HumanTabName :: string
  DashboardName :: string
  DashboardGroup :: string
  BaseOptions :: string
  Extra :: "string \<rightharpoonup> string"

record TestGridMetaData =
  md :: "string \<rightharpoonup> JobDetailMap"
  projNames :: "string list"
  repoNames :: "string list"
  nonAligned :: "NonAlignedTestGroup list"

definition NewTestGridMetaData :: TestGridMetaData where
  "NewTestGridMetaData = \<lparr> md = Map.empty, projNames = [], repoNames = [], nonAligned = [] \<rparr>"

fun strExists :: "string list \<Rightarrow> string \<Rightarrow> bool" where
  "strExists [] str = False"
| "strExists (s # arr) str = (if str = s then True else strExists arr str)"

definition JobDetailMap_EnsureExists :: "string \<Rightarrow> JobDetailMap \<Rightarrow> bool \<times> JobDetailMap" where
  "JobDetailMap_EnsureExists repoName j =
     (case j repoName of
        None \<Rightarrow> (False, j(repoName \<mapsto> []))
      | Some _ \<Rightarrow> (True, j))"

text \<open>The methods of this file. Each returns its Go result together with the store
  after the call.\<close>

definition EnsureExists :: "string \<Rightarrow> TestGridMetaData \<Rightarrow> bool \<times> TestGridMetaData" where
  "EnsureExists projName t =
     (case md t projName of
        None \<Rightarrow>
          (let t1 = t\<lparr>md := (md t)(projName \<mapsto> Map.empty)\<rparr>;
               t2 = (if \<not> strExists (projNames t1) projName
                     then t1\<lparr>projNames := projNames t1 @ [projName]\<rparr>
                     else t1)
           in (False, t2))
      | Some _ \<Rightarrow> (True, t))"

text \<open>\<open>t.md[projName]\<close> reads as the empty (nil) map where the key is missing.\<close>

definition lookupProject :: "TestGridMetaData \<Rightarrow> string \<Rightarrow> JobDetailMap" where
  "lookupProject t projName = (case md t projName of None \<Rightarrow> Map.empty | Some j \<Rightarrow> j)"

definition Get :: "string \<Rightarrow> TestGridMetaData \<Rightarrow> JobDetailMap \<times> TestGridMetaData" where
  "Get projName t = (let (_, t1) = EnsureExists projName t in (lookupProject t1 projName, t1))"

text \<open>A Go map is a reference: \<open>jdm.EnsureExists(repoName)\<close> changes the map that
  \<open>t.md[projName]\<close> holds, so the model stores the changed map back.\<close>

definition EnsureRepo :: "string \<Rightarrow> string \<Rightarrow> TestGridMetaData \<Rightarrow> bool \<times> TestGridMetaData" where
  "EnsureRepo projName repoName t =
     (let (jdm, t1) = Get projName t;
          (existed, jdm') = JobDetailMap_EnsureExists repoName jdm;
          t2 = t1\<lparr>md := (md t1)(projName \<mapsto> jdm')\<rparr>
      in if \<not> existed then
           (False, if \<not> strExists (repoNames t2) repoName
                   then t2\<lparr>repoNames := repoNames t2 @ [repoName]\<rparr>
                   else t2)
         else (True, t2))"

definition AddNonAlignedTest :: "NonAlignedTestGroup \<Rightarrow> TestGridMetaData \<Rightarrow> TestGridMetaData" where
  "AddNonAlignedTest n t = t\<lparr>nonAligned := nonAligned t @ [n]\<rparr>"

text \<open>Sequences of calls on the store, their results dropped.\<close>

datatype storeCall = CallEnsureExists string | CallEnsureRepo string string

fun applyCall :: "TestGridMetaData \<Rightarrow> storeCall \<Rightarrow> TestGridMetaData" where
  "applyCall t (CallEnsureExists p) = snd (EnsureExists p t)"
| "applyCall t (CallEnsureRepo p r) = snd (EnsureRepo p r t)"

definition runCalls :: "storeCall list \<Rightarrow> TestGridMetaData" where
  "runCalls cs = foldl applyCall NewTestGridMetaData cs"

fun callProject :: "storeCall \<Rightarrow> string" where
  "callProject (CallEnsureExists p) = p"
| "callProject (CallEnsureRepo p r) = p"

fun callRepos :: "storeCall \<Rightarrow> string list" where
  "callRepos (CallEnsureExists p) = []"
| "callRepos (CallEnsureRepo p r) = [r]"

text \<open>First-seen order, as the spec words it: the position of a name is that of its
  first occurrence, and a name already present is never appended twice.\<close>

fun firstSeen :: "'a list \<Rightarrow> 'a list" where
  "firstSeen [] = []"
| "firstSeen (x # xs) = x # removeAll x (firstSeen xs)"


section \<open>The output and the template data\<close>

text \<open>
  \<open>testGroupTemplateData\<close>, \<open>dashboardTabTemplateData\<close> and
  \<open>dashboardGroupTemplateData\<close>. Of the embedded \<open>Base\<close> record the functions of this
  file set \<open>TestGroupName\<close> only, the other fields keep their zero values and are left
  out. Go's field \<open>Name\<close>, \<open>BaseOptions\<close> and \<open>Extras\<close> of the tab data and \<open>Name\<close> of the
  group data carry a prefix here, since record fields share one name space.
\<close>

record testGroupTemplateData =
  TestGroupName :: string
  GcsLogDir :: string
  Extras :: "string \<rightharpoonup> string"

record dashboardTabTemplateData =
  TabTestGroupName :: string
  TabName :: string
  TabBaseOptions :: string
  TabExtras :: "string \<rightharpoonup> string"

record dashboardGroupTemplateData =
  GroupName :: string
  RepoNames :: "string list"

text \<open>
  Modelled from the spec: the global \<open>output\<close> with its method \<open>outputConfig\<close> and its
  field \<open>count\<close>, and \<open>executeTemplate\<close> with \<open>readTemplate\<close>, are declared outside this
  file. The spec gives them as an append-only output buffer, whose length the section
  generator records, and as an opaque sink that renders a named template with a data
  record and appends the result to the buffer. The buffer is the list of what was
  appended, a line or a template with its data; \<open>count\<close> is its length.
\<close>

datatype entry =
    ConfigLine string
  | TestGroupEntry testGroupTemplateData
  | DashboardTabEntry dashboardTabTemplateData
  | DashboardGroupEntry dashboardGroupTemplateData

type_synonym outputter = "entry list"

definition count :: "outputter \<Rightarrow> nat" where
  "count out = length out"

definition outputConfig :: "string \<Rightarrow> outputter \<Rightarrow> outputter" where
  "outputConfig line out = out @ [ConfigLine line]"

definition executeTestGroupTemplate ::
  "string \<Rightarrow> string \<Rightarrow> (string \<rightharpoonup> string) \<Rightarrow> outputter \<Rightarrow> outputter" where
  "executeTestGroupTemplate testGroupName gcsLogDir extras out =
     out @ [TestGroupEntry
              \<lparr> TestGroupName = testGroupName, GcsLogDir = gcsLogDir, Extras = extras \<rparr>]"

definition executeDashboardTabTemplate ::
  "string \<Rightarrow> string \<Rightarrow> string \<Rightarrow> (string \<rightharpoonup> string) \<Rightarrow> outputter \<Rightarrow> outputter" where
  "executeDashboardTabTemplate dashboardTabName testGroupName baseOptions extras out =
     out @ [DashboardTabEntry
              \<lparr> TabTestGroupName = testGroupName, TabName = dashboardTabName,
                TabBaseOptions = baseOptions, TabExtras = extras \<rparr>]"

definition executeDashboardGroupTemplate :: "string \<Rightarrow> string list \<Rightarrow> outputter \<Rightarrow> outputter" where
  "executeDashboardGroupTemplate dashboardGroupName dashboardRepoNames out =
     out @ [DashboardGroupEntry
              \<lparr> GroupName = dashboardGroupName, RepoNames = dashboardRepoNames \<rparr>]"


section \<open>The alerting policy and the annotations\<close>

definition getTestgroupExtras :: "env \<Rightarrow> string \<Rightarrow> string \<Rightarrow> (string \<rightharpoonup> string)" where
  "getTestgroupExtras e projName jobName =
    (if jobName = ''continuous'' then
       (if releaseRegexFindString e projName \<noteq> [] then
          [''num_failures_to_alert'' \<mapsto> ''3'',
           ''alert_options'' \<mapsto>
             nl # ''    alert_mail_to_addresses: '' @ dq # ''serverless-engprod-sea@google.com'' @ [dq]]
        else
          [''alert_stale_results_hours'' \<mapsto> ''3''])
     else if jobName = ''dot-release'' \<or> jobName = ''auto-release'' \<or> jobName = ''nightly'' then
       (let extras =
          [''num_failures_to_alert'' \<mapsto> ''1'',
           ''alert_options'' \<mapsto>
             nl # ''    alert_mail_to_addresses: '' @ dq # ''serverless-engprod-sea@google.com'' @ [dq]]
        in if jobName = ''dot-release''
           then extras(''alert_stale_results_hours'' \<mapsto> ''170'')
           else extras)
     else if jobName = ''webhook-apicoverage'' then
       [''alert_stale_results_hours'' \<mapsto> ''48'']
     else if jobName = ''test-coverage'' then
       [''short_text_metric'' \<mapsto> ''coverage'']
     else
       [''alert_stale_results_hours'' \<mapsto> ''3''])"

text \<open>
  \<open>quotedEmailPattern\<close> is the regular expression \<open>"(.+@.+\..+)"\<close>, the quotes being
  part of it. Go's \<open>FindStringSubmatch\<close> returns the leftmost match, and among the matches
  that start there the one a backtracking search finds first, each greedy \<open>.+\<close> trying
  its longest run first; \<open>.\<close> matches every byte but the newline.

  \<open>anyPlus s\<close> lists the ways \<open>.+\<close> can consume a prefix of \<open>s\<close>, the longest first, each
  with the rest of \<open>s\<close>; \<open>lit\<close> consumes one given byte; \<open>matchHere\<close> lists the captures
  of the matches that start at the head of its argument, in the order of the search.
\<close>

fun anyPlus :: "string \<Rightarrow> (string \<times> string) list" where
  "anyPlus [] = []"
| "anyPlus (c # cs) =
     (if c = nl then [] else map (\<lambda>(a, r). (c # a, r)) (anyPlus cs) @ [([c], cs)])"

fun lit :: "char \<Rightarrow> string \<Rightarrow> string list" where
  "lit c [] = []"
| "lit c (x # r) = (if x = c then [r] else [])"

definition matchHere :: "string \<Rightarrow> string list" where
  "matchHere s =
     [a @ CHR ''@'' # b @ CHR ''.'' # c.
        r0 \<leftarrow> lit dq s,
        (a, r1) \<leftarrow> anyPlus r0,
        r2 \<leftarrow> lit (CHR ''@'') r1,
        (b, r3) \<leftarrow> anyPlus r2,
        r4 \<leftarrow> lit (CHR ''.'') r3,
        (c, r5) \<leftarrow> anyPlus r4,
        r6 \<leftarrow> lit dq r5]"

text \<open>\<open>quotedEmailPattern.FindStringSubmatch(v)[1]\<close>: the first capture group of the
  leftmost match, \<open>None\<close> where nothing matches and indexing the nil result panics.\<close>

fun FindStringSubmatch1 :: "string \<Rightarrow> string option" where
  "FindStringSubmatch1 [] = None"
| "FindStringSubmatch1 (c # cs) =
     (case matchHere (c # cs) of
        m # _ \<Rightarrow> Some m
      | [] \<Rightarrow> FindStringSubmatch1 cs)"

datatype panic = IndexOutOfRange

definition generateProwJobAnnotations ::
  "string \<Rightarrow> string \<Rightarrow> (string \<rightharpoonup> string) \<Rightarrow> panic + string list" where
  "generateProwJobAnnotations repoName jobName tgExtras =
    (let annotations0 = [''  testgrid-dashboards: '' @ repoName,
                         ''  testgrid-tab-name: '' @ jobName];
         annotations1 =
           (case tgExtras ''alert_stale_results_hours'' of
              Some v \<Rightarrow> annotations0 @ [''  testgrid-alert-stale-results-hours: '' @ dq # v @ [dq]]
            | None \<Rightarrow> annotations0);
         annotations2 =
           (case tgExtras ''short_text_metric'' of
              Some v \<Rightarrow> annotations1 @ [''  testgrid-in-cell-metric: '' @ v]
            | None \<Rightarrow> annotations1);
         tail =
           (\<lambda>annotations3.
              case tgExtras ''num_failures_to_alert'' of
                Some v \<Rightarrow> annotations3 @ [''  testgrid-num-failures-to-alert: '' @ dq # v @ [dq]]
              | None \<Rightarrow> annotations3)
     in case tgExtras ''alert_options'' of
          Some v \<Rightarrow>
            (case FindStringSubmatch1 v of
               None \<Rightarrow> Inl IndexOutOfRange
             | Some email \<Rightarrow>
                 Inr (tail (annotations2 @ [''  testgrid-alert-email: '' @ dq # email @ [dq]])))
        | None \<Rightarrow> Inr (tail annotations2))"

text \<open>What the spec says of the pattern: a quoted string that holds an \<open>@\<close> and, after
  it, a \<open>.\<close>, with text before, between and after them, all on one line.\<close>

definition hasQuotedEmail :: "string \<Rightarrow> bool" where
  "hasQuotedEmail v \<longleftrightarrow>
     (\<exists>pre a b c post.
        v = pre @ dq # a @ CHR ''@'' # b @ CHR ''.'' # c @ dq # post \<and>
        a \<noteq> [] \<and> b \<noteq> [] \<and> c \<noteq> [] \<and> nl \<notin> set a \<and> nl \<notin> set b \<and> nl \<notin> set c)"

text \<open>Two readings of the claim's words, a quoted string with an \<open>@\<close> and a \<open>.\<close>. The
  strict one: between two quotes, with no quote in between, stand an \<open>@\<close> and a \<open>.\<close>.
  The loose one: two quotes of the value enclose an \<open>@\<close> and a \<open>.\<close>, and maybe further
  quotes. \<open>twoQuoted\<close> is the value \<open>"a@b" "c.d"\<close>, with its four quotes.\<close>

definition holdsQuotedAtDot :: "string \<Rightarrow> bool" where
  "holdsQuotedAtDot v \<longleftrightarrow>
     (\<exists>pre q post. v = pre @ dq # q @ dq # post \<and> dq \<notin> set q \<and>
        CHR ''@'' \<in> set q \<and> CHR ''.'' \<in> set q)"

definition twoQuoted :: string where
  "twoQuoted = dq # ''a@b'' @ dq # '' '' @ dq # ''c.d'' @ [dq]"


definition containsQuotedAtDot :: "string \<Rightarrow> bool" where
  "containsQuotedAtDot v \<longleftrightarrow>
     (\<exists>pre q post. v = pre @ dq # q @ dq # post \<and> CHR ''@'' \<in> set q \<and> CHR ''.'' \<in> set q)"

text \<open>The keys in the order of the annotations, and the line of one key.\<close>

definition annotationKeys :: "string list" where
  "annotationKeys =
     [''alert_stale_results_hours'', ''short_text_metric'', ''alert_options'',
      ''num_failures_to_alert'']"

definition annotationLine :: "string \<Rightarrow> string \<Rightarrow> string option" where
  "annotationLine key v =
    (if key = ''alert_stale_results_hours'' then
       Some (''  testgrid-alert-stale-results-hours: '' @ dq # v @ [dq])
     else if key = ''short_text_metric'' then
       Some (''  testgrid-in-cell-metric: '' @ v)
     else if key = ''alert_options'' then
       map_option (\<lambda>email. ''  testgrid-alert-email: '' @ dq # email @ [dq])
         (FindStringSubmatch1 v)
     else
       Some (''  testgrid-num-failures-to-alert: '' @ dq # v @ [dq]))"

definition renderKey :: "(string \<rightharpoonup> string) \<Rightarrow> string \<Rightarrow> string option" where
  "renderKey tgExtras key = Option.bind (tgExtras key) (annotationLine key)"


section \<open>The generation passes\<close>

definition getGcsLogDir :: "env \<Rightarrow> string \<Rightarrow> string" where
  "getGcsLogDir e testGroupName = GCSBucket e @ ''/'' @ LogsDir e @ ''/'' @ testGroupName"

definition getTestGroupName :: "env \<Rightarrow> string \<Rightarrow> string \<Rightarrow> string" where
  "getTestGroupName e repoName jobName =
    (if jobName = ''nightly''
     then ToLower e (''ci-'' @ repoName @ ''-'' @ jobName @ ''-release'')
     else ToLower e (''ci-'' @ repoName @ ''-'' @ jobName))"

text \<open>\<open>generateTestGridSection\<close>: the loop over \<open>t.repoNames\<close>, the loop over
  \<open>t.projNames\<close> around it, and the function. The generator is a function value that
  writes to the global output.\<close>

type_synonym testgridEntityGenerator =
  "string \<Rightarrow> string \<Rightarrow> string list \<Rightarrow> outputter \<Rightarrow> outputter"

fun sectionRepos ::
  "testgridEntityGenerator \<Rightarrow> string \<Rightarrow> JobDetailMap \<Rightarrow> string list \<Rightarrow> outputter \<Rightarrow> outputter" where
  "sectionRepos generator projName repos [] out = out"
| "sectionRepos generator projName repos (repoName # rs) out =
     sectionRepos generator projName repos rs
       (case repos repoName of
          Some jobNames \<Rightarrow> generator projName repoName jobNames out
        | None \<Rightarrow> out)"

fun sectionProjects ::
  "env \<Rightarrow> testgridEntityGenerator \<Rightarrow> bool \<Rightarrow> TestGridMetaData \<Rightarrow> string list \<Rightarrow>
   outputter \<Rightarrow> outputter" where
  "sectionProjects e generator skipReleasedProj t [] out = out"
| "sectionProjects e generator skipReleasedProj t (projName # ps) out =
     sectionProjects e generator skipReleasedProj t ps
       (if skipReleasedProj \<and> isReleased e projName then out
        else sectionRepos generator projName (lookupProject t projName) (repoNames t) out)"

definition generateTestGridSection ::
  "env \<Rightarrow> string \<Rightarrow> testgridEntityGenerator \<Rightarrow> bool \<Rightarrow> TestGridMetaData \<Rightarrow>
   outputter \<Rightarrow> outputter" where
  "generateTestGridSection e sectionName generator skipReleasedProj t out =
    (let oldCount = count out;
         out1 = outputConfig (sectionName @ '':'') out;
         out2 = sectionProjects e generator skipReleasedProj t (projNames t) out1
     in if count out2 = oldCount
        then outputConfig (baseIndent e @ ''- name: empty'') out2
        else out2)"

text \<open>\<open>generateTestGroup\<close>: the body of the loop over the job names, the loop, and the
  function.\<close>

definition generateTestGroup_job ::
  "env \<Rightarrow> string \<Rightarrow> string \<Rightarrow> string \<Rightarrow> outputter \<Rightarrow> outputter" where
  "generateTestGroup_job e projName projRepoStr jobName out =
     (let testGroupName = getTestGroupName e projRepoStr jobName;
          testGroupNameForGCSLogDir =
            (if jobName = ''test-coverage''
             then ''ci-'' @ projRepoStr @ ''-'' @ ''go-coverage''
             else testGroupName);
          gcsLogDir = getGcsLogDir e testGroupNameForGCSLogDir;
          extras = getTestgroupExtras e projName jobName
      in executeTestGroupTemplate testGroupName gcsLogDir extras out)"

fun generateTestGroup_loop ::
  "env \<Rightarrow> string \<Rightarrow> string \<Rightarrow> string list \<Rightarrow> outputter \<Rightarrow> outputter" where
  "generateTestGroup_loop e projName projRepoStr [] out = out"
| "generateTestGroup_loop e projName projRepoStr (jobName # js) out =
     generateTestGroup_loop e projName projRepoStr js
       (generateTestGroup_job e projName projRepoStr jobName out)"

definition generateTestGroup :: "env \<Rightarrow> testgridEntityGenerator" where
  "generateTestGroup e projName repoName jobNames out =
     generateTestGroup_loop e projName (buildProjRepoStr e projName repoName) jobNames out"

text \<open>\<open>generateDashboard\<close>: the body of the loop over the job names with its switch,
  the loop, and the function.\<close>

definition generateDashboard_job ::
  "env \<Rightarrow> string \<Rightarrow> string \<Rightarrow> outputter \<Rightarrow> outputter" where
  "generateDashboard_job e projRepoStr jobName out =
     (let noExtras = Map.empty;
          testGroupName = getTestGroupName e projRepoStr jobName
      in if jobName = ''continuous'' then
             (let extras =
                [''num_failures_to_alert'' \<mapsto> ''3'',
                 ''alert_options'' \<mapsto>
                   nl # ''      alert_mail_to_addresses: '' @ dq # ''serverless-engprod-sea@google.com'' @ [dq]];
                  out1 = executeDashboardTabTemplate ''continuous'' testGroupName
                           testgridTabSortByName extras out
              in if projRepoStr = ''knative-serving''
                 then executeDashboardTabTemplate ''conformance'' testGroupName
                        ''include-filter-by-regex=test/conformance/&sort-by-name='' extras out1
                 else out1)
           else if jobName = ''dot-release'' \<or> jobName = ''auto-release'' then
             (let extras =
                [''num_failures_to_alert'' \<mapsto> ''1'',
                 ''alert_options'' \<mapsto>
                   nl # ''      alert_mail_to_addresses: '' @ dq # ''serverless-engprod-sea@google.com'' @ [dq]];
                  baseOptions = testgridTabSortByName
              in executeDashboardTabTemplate jobName testGroupName baseOptions extras out)
           else if jobName = ''webhook-apicoverage'' then
             (let baseOptions = testgridTabSortByName
              in executeDashboardTabTemplate jobName testGroupName baseOptions noExtras out)
           else if jobName = ''nightly'' then
             (let extras =
                [''num_failures_to_alert'' \<mapsto> ''1'',
                 ''alert_options'' \<mapsto>
                   nl # ''      alert_mail_to_addresses: '' @ dq # ''serverless-engprod-sea@google.com'' @ [dq]]
              in executeDashboardTabTemplate ''nightly'' testGroupName testgridTabSortByName
                   extras out)
           else if jobName = ''test-coverage'' then
             executeDashboardTabTemplate ''coverage'' testGroupName testgridTabGroupByDir
               noExtras out
           else
             executeDashboardTabTemplate jobName testGroupName testgridTabSortByName
               noExtras out)"

fun generateDashboard_loop ::
  "env \<Rightarrow> string \<Rightarrow> string list \<Rightarrow> outputter \<Rightarrow> outputter" where
  "generateDashboard_loop e projRepoStr [] out = out"
| "generateDashboard_loop e projRepoStr (jobName # js) out =
     generateDashboard_loop e projRepoStr js (generateDashboard_job e projRepoStr jobName out)"

definition generateDashboard :: "env \<Rightarrow> testgridEntityGenerator" where
  "generateDashboard e projName repoName jobNames out =
    (let projRepoStr = buildProjRepoStr e projName repoName;
         out1 = outputConfig
                  (''- name: '' @ ToLower e repoName @ [nl] @ baseIndent e @ ''dashboard_tab:'') out
     in generateDashboard_loop e projRepoStr jobNames out1)"

text \<open>The extras of the dashboard tabs in an output, in the order of the tabs.\<close>

fun tabExtrasOf :: "outputter \<Rightarrow> (string \<rightharpoonup> string) list" where
  "tabExtrasOf [] = []"
| "tabExtrasOf (DashboardTabEntry d # es) = TabExtras d # tabExtrasOf es"
| "tabExtrasOf (_ # es) = tabExtrasOf es"


text \<open>\<open>m[k]\<close> on a map of slices reads as the nil slice where the key is missing.\<close>

definition lookupList :: "('k \<rightharpoonup> 'v list) \<Rightarrow> 'k \<Rightarrow> 'v list" where
  "lookupList m k = (case m k of None \<Rightarrow> [] | Some xs \<Rightarrow> xs)"

text \<open>\<open>generateNonAlignedDashboardGroups\<close>: the body of the collecting loop on the pair
  of \<open>keys\<close> and \<open>dg\<close>, the loop, the emitting loop, and the function.\<close>

definition collectGroups_step ::
  "string list \<times> (string \<rightharpoonup> string list) \<Rightarrow> NonAlignedTestGroup \<Rightarrow>
   string list \<times> (string \<rightharpoonup> string list)" where
  "collectGroups_step acc tg =
     (let (keys, dg) = acc;
          (keys1, dg1) =
            (case dg (DashboardGroup tg) of
               None \<Rightarrow> (keys @ [DashboardGroup tg], dg(DashboardGroup tg \<mapsto> []))
             | Some _ \<Rightarrow> (keys, dg))
      in if \<not> strExists (lookupList dg1 (DashboardGroup tg)) (DashboardName tg)
         then (keys1, dg1(DashboardGroup tg \<mapsto>
                 lookupList dg1 (DashboardGroup tg) @ [DashboardName tg]))
         else (keys1, dg1))"

fun collectGroups ::
  "string list \<times> (string \<rightharpoonup> string list) \<Rightarrow> NonAlignedTestGroup list \<Rightarrow>
   string list \<times> (string \<rightharpoonup> string list)" where
  "collectGroups acc [] = acc"
| "collectGroups acc (tg # tgs) = collectGroups (collectGroups_step acc tg) tgs"

fun emitGroups :: "(string \<rightharpoonup> string list) \<Rightarrow> string list \<Rightarrow> outputter \<Rightarrow> outputter" where
  "emitGroups dg [] out = out"
| "emitGroups dg (groupName # ks) out =
     (let names = lookupList dg groupName
      in emitGroups dg ks (executeDashboardGroupTemplate groupName names out))"

definition generateNonAlignedDashboardGroups :: "TestGridMetaData \<Rightarrow> outputter \<Rightarrow> outputter" where
  "generateNonAlignedDashboardGroups t out =
     (let (keys, dg) = collectGroups ([], Map.empty) (nonAligned t)
      in emitGroups dg keys out)"


section \<open>Invariants and example inputs\<close>

text \<open>The invariant of the store after the calls \<open>cs\<close>: both name lists are the
  first-seen orders of the names the calls mention, and they cover the keys of the maps.\<close>

definition storeInv :: "TestGridMetaData \<Rightarrow> storeCall list \<Rightarrow> bool" where
  "storeInv t cs \<longleftrightarrow>
     projNames t = firstSeen (map callProject cs) \<and>
     repoNames t = firstSeen (concat (map callRepos cs)) \<and>
     dom (md t) \<subseteq> set (projNames t) \<and>
     (\<forall>p jdm. md t p = Some jdm \<longrightarrow> dom jdm \<subseteq> set (repoNames t))"

definition exampleCalls :: "storeCall list" where
  "exampleCalls =
     [CallEnsureRepo ''knative'' ''serving'',
      CallEnsureExists ''knative'',
      CallEnsureRepo ''google'' ''serving'',
      CallEnsureRepo ''knative'' ''eventing'']"

text \<open>An environment for the examples: no project is a release, the project and
  repository names are joined by a dash, the case table changes no rune.\<close>

definition exampleEnv :: env where
  "exampleEnv =
     \<lparr> isReleased = (\<lambda>projName. False),
       releaseRegexFindString = (\<lambda>projName. []),
       buildProjRepoStr = (\<lambda>projName repoName. projName @ ''-'' @ repoName),
       baseIndent = ''  '',
       GCSBucket = ''knative-prow'',
       LogsDir = ''logs'',
       unicodeLowerCase = (\<lambda>r. int r) \<rparr>"

text \<open>The extras that \<open>generateDashboard\<close> builds for an alerting tab, with the
  failure count \<open>n\<close>; the indentation inside \<open>alert_options\<close> is six blanks.\<close>

definition dashAlert :: "string \<Rightarrow> (string \<rightharpoonup> string)" where
  "dashAlert n =
     [''num_failures_to_alert'' \<mapsto> n,
      ''alert_options'' \<mapsto>
         nl # ''      alert_mail_to_addresses: '' @ dq # ''serverless-engprod-sea@google.com'' @ [dq]]"

text \<open>The extras \<open>generateDashboard\<close> passes to the tabs of a job kind: its switch read
  as a table.\<close>

definition dashboardExtras :: "string \<Rightarrow> (string \<rightharpoonup> string)" where
  "dashboardExtras job =
    (if job = ''continuous'' then dashAlert ''3''
     else if job = ''dot-release'' \<or> job = ''auto-release'' \<or> job = ''nightly'' then dashAlert ''1''
     else Map.empty)"

text \<open>The members of a dashboard group, as the spec words them: the dashboard names
  observed under the group, first-seen order, deduplicated.\<close>

definition groupMembers :: "NonAlignedTestGroup list \<Rightarrow> string \<Rightarrow> string list" where
  "groupMembers tgs g = firstSeen (map DashboardName (filter (\<lambda>tg. DashboardGroup tg = g) tgs))"

text \<open>Two non-aligned entries of one dashboard group, on two dashboards.\<close>

definition exampleEntry1 :: NonAlignedTestGroup where
  "exampleEntry1 =
     \<lparr> CIJobName = ''ci-knative-perf-a'', HumanTabName = ''a'', DashboardName = ''perf-one'',
       DashboardGroup = ''perf'', BaseOptions = [], Extra = Map.empty \<rparr>"

definition exampleEntry2 :: NonAlignedTestGroup where
  "exampleEntry2 =
     \<lparr> CIJobName = ''ci-knative-perf-b'', HumanTabName = ''b'', DashboardName = ''perf-two'',
       DashboardGroup = ''perf'', BaseOptions = [], Extra = Map.empty \<rparr>"


section \<open>The cluster-creation request: theorems\<close>

text \<open>
  C9. For every request \<open>r\<close>, \<open>DeepCopy r\<close> has the same Project, GKEVersion,
  ReleaseChannel, ClusterName, MinNodes, MaxNodes, NodeType, Region, Zone, Addons,
  EnableWorkloadIdentity and ServiceAccount as \<open>r\<close>, and its GCPCredentialFile is the
  empty string whatever \<open>r\<close> holds there: the credential file path is not copied.
\<close>

theorem DeepCopy_fields:
  "Project (DeepCopy r) = Project r \<and>
   GKEVersion (DeepCopy r) = GKEVersion r \<and>
   ReleaseChannel (DeepCopy r) = ReleaseChannel r \<and>
   ClusterName (DeepCopy r) = ClusterName r \<and>
   MinNodes (DeepCopy r) = MinNodes r \<and>
   MaxNodes (DeepCopy r) = MaxNodes r \<and>
   NodeType (DeepCopy r) = NodeType r \<and>
   Region (DeepCopy r) = Region r \<and>
   Zone (DeepCopy r) = Zone r \<and>
   Addons (DeepCopy r) = Addons r \<and>
   EnableWorkloadIdentity (DeepCopy r) = EnableWorkloadIdentity r \<and>
   ServiceAccount (DeepCopy r) = ServiceAccount r \<and>
   GCPCredentialFile (DeepCopy r) = []"
  by (simp add: DeepCopy_def)

text \<open>
  C4. For every request, \<open>NewCreateClusterRequest\<close> returns an error if and only if the
  cluster name is empty, or the minimum node count is not positive, or the minimum
  exceeds the maximum, or the node type is empty, or Workload Identity is enabled with
  an empty project, or both a GKE version and a release channel are given. On success
  the returned request has exactly one node pool, named \<open>default-pool\<close>, with autoscaling
  enabled between the given minimum and maximum.
\<close>

theorem NewCreateClusterRequest_validation:
  "((\<exists>msg. NewCreateClusterRequest gac r = Inl msg) \<longleftrightarrow>
      (ClusterName r = [] \<or> sint (MinNodes r) \<le> 0 \<or> sint (MaxNodes r) < sint (MinNodes r) \<or>
       NodeType r = [] \<or> (EnableWorkloadIdentity r \<and> Project r = []) \<or>
       (GKEVersion r \<noteq> [] \<and> ReleaseChannel r \<noteq> []))) \<and>
   (\<forall>ccr. NewCreateClusterRequest gac r = Inr ccr \<longrightarrow>
      (\<exists>pool. NodePools (Cluster ccr) = [pool] \<and> PoolName pool = ''default-pool'' \<and>
         Enabled (Autoscaling pool) \<and>
         MinNodeCount (Autoscaling pool) = MinNodes r \<and>
         MaxNodeCount (Autoscaling pool) = MaxNodes r))"
  by (auto simp: NewCreateClusterRequest_def Let_def baseCluster_def)

theorem NewCreateClusterRequest_validation_witness:
  "(\<exists>ccr pool. NewCreateClusterRequest (\<lambda>addons. ()) minimalRequest = Inr ccr \<and>
       NodePools (Cluster ccr) = [pool] \<and> PoolName pool = ''default-pool'' \<and>
       Enabled (Autoscaling pool) \<and>
       MinNodeCount (Autoscaling pool) = 1 \<and> MaxNodeCount (Autoscaling pool) = 3) \<and>
   (\<exists>msg. NewCreateClusterRequest (\<lambda>addons. ()) (minimalRequest\<lparr>MinNodes := 0\<rparr>) = Inl msg) \<and>
   (\<exists>msg. NewCreateClusterRequest (\<lambda>addons. ()) (minimalRequest\<lparr>MinNodes := 5\<rparr>) = Inl msg) \<and>
   (\<exists>msg. NewCreateClusterRequest (\<lambda>addons. ())
       (minimalRequest\<lparr>GKEVersion := ''1.17'', ReleaseChannel := ''rapid''\<rparr>) = Inl msg)"
proof -
  have ok: "\<not> (\<exists>msg. NewCreateClusterRequest (\<lambda>addons. ()) minimalRequest = Inl msg)"
    using NewCreateClusterRequest_validation [of "\<lambda>addons. ()" minimalRequest]
    by (simp add: minimalRequest_def)
  then obtain ccr where c: "NewCreateClusterRequest (\<lambda>addons. ()) minimalRequest = Inr ccr"
    by (cases "NewCreateClusterRequest (\<lambda>addons. ()) minimalRequest") auto
  have p1: "\<exists>ccr pool. NewCreateClusterRequest (\<lambda>addons. ()) minimalRequest = Inr ccr \<and>
       NodePools (Cluster ccr) = [pool] \<and> PoolName pool = ''default-pool'' \<and>
       Enabled (Autoscaling pool) \<and>
       MinNodeCount (Autoscaling pool) = 1 \<and> MaxNodeCount (Autoscaling pool) = 3"
    using NewCreateClusterRequest_validation [of "\<lambda>addons. ()" minimalRequest] c
    by (auto simp: minimalRequest_def)
  have p2: "\<exists>msg. NewCreateClusterRequest (\<lambda>addons. ()) (minimalRequest\<lparr>MinNodes := 0\<rparr>) = Inl msg"
    using NewCreateClusterRequest_validation [of "\<lambda>addons. ()" "minimalRequest\<lparr>MinNodes := 0\<rparr>"]
    by (simp add: minimalRequest_def)
  have p3: "\<exists>msg. NewCreateClusterRequest (\<lambda>addons. ()) (minimalRequest\<lparr>MinNodes := 5\<rparr>) = Inl msg"
    using NewCreateClusterRequest_validation [of "\<lambda>addons. ()" "minimalRequest\<lparr>MinNodes := 5\<rparr>"]
    by (simp add: minimalRequest_def)
  have p4: "\<exists>msg. NewCreateClusterRequest (\<lambda>addons. ())
       (minimalRequest\<lparr>GKEVersion := ''1.17'', ReleaseChannel := ''rapid''\<rparr>) = Inl msg"
    using NewCreateClusterRequest_validation [of "\<lambda>addons. ()" "minimalRequest\<lparr>GKEVersion := ''1.17'', ReleaseChannel := ''rapid''\<rparr>"]
    by (simp add: minimalRequest_def)
  from p1 p2 p3 p4 show ?thesis by blast
qed


section \<open>The grouping store: theorems\<close>

lemma strExists_iff: "strExists arr str \<longleftrightarrow> str \<in> set arr"
  by (induction arr) auto

lemma set_firstSeen: "set (firstSeen xs) = set xs"
  by (induction xs) auto

lemma distinct_firstSeen: "distinct (firstSeen xs)"
  by (induction xs) (auto simp: distinct_removeAll)

lemma firstSeen_snoc:
  "firstSeen (xs @ [x]) = (if x \<in> set xs then firstSeen xs else firstSeen xs @ [x])"
  by (induction xs) (auto simp: set_firstSeen)

lemma runCalls_snoc: "runCalls (cs @ [c]) = applyCall (runCalls cs) c"
  by (simp add: runCalls_def)

lemma EnsureExists_md:
  "md (snd (EnsureExists p t)) = (if md t p = None then (md t)(p \<mapsto> Map.empty) else md t)"
  by (auto simp: EnsureExists_def Let_def split: option.splits)

lemma EnsureExists_projNames:
  "projNames (snd (EnsureExists p t)) =
     (if md t p = None \<and> p \<notin> set (projNames t) then projNames t @ [p] else projNames t)"
  by (auto simp: EnsureExists_def Let_def strExists_iff split: option.splits)

lemma EnsureExists_repoNames: "repoNames (snd (EnsureExists p t)) = repoNames t"
  by (auto simp: EnsureExists_def Let_def split: option.splits)

lemma EnsureRepo_md:
  "md (snd (EnsureRepo p r t)) =
     (md t)(p \<mapsto> (case lookupProject t p r of None \<Rightarrow> (lookupProject t p)(r \<mapsto> []) | Some _ \<Rightarrow> lookupProject t p))"
  by (auto simp: EnsureRepo_def Get_def lookupProject_def JobDetailMap_EnsureExists_def
      EnsureExists_md Let_def case_prod_beta split: option.splits)

lemma EnsureRepo_projNames:
  "projNames (snd (EnsureRepo p r t)) = projNames (snd (EnsureExists p t))"
  by (simp add: EnsureRepo_def Get_def Let_def case_prod_beta JobDetailMap_EnsureExists_def
      split: option.splits)

lemma EnsureRepo_repoNames:
  "repoNames (snd (EnsureRepo p r t)) =
     (if lookupProject t p r = None \<and> r \<notin> set (repoNames t) then repoNames t @ [r] else repoNames t)"
  by (auto simp: EnsureRepo_def Get_def lookupProject_def JobDetailMap_EnsureExists_def
      EnsureExists_md EnsureExists_repoNames Let_def strExists_iff case_prod_beta
      split: option.splits)

lemma EnsureExists_inv:
  assumes "storeInv t cs"
  shows "storeInv (snd (EnsureExists p t)) (cs @ [CallEnsureExists p])"
proof -
  from assms have pn: "projNames t = firstSeen (map callProject cs)"
    and rn: "repoNames t = firstSeen (concat (map callRepos cs))"
    and dm: "dom (md t) \<subseteq> set (projNames t)"
    unfolding storeInv_def by blast+
  from assms have dj: "dom jdm \<subseteq> set (repoNames t)" if "md t q = Some jdm" for q jdm
    unfolding storeInv_def using that by blast
  have mem: "md t p \<noteq> None \<Longrightarrow> p \<in> set (projNames t)"
    using dm by auto
  have 1: "projNames (snd (EnsureExists p t)) = firstSeen (map callProject (cs @ [CallEnsureExists p]))"
    using mem by (auto simp: EnsureExists_projNames firstSeen_snoc pn set_firstSeen)
  have 2: "repoNames (snd (EnsureExists p t)) = firstSeen (concat (map callRepos (cs @ [CallEnsureExists p])))"
    by (simp add: EnsureExists_repoNames rn)
  have 3: "dom (md (snd (EnsureExists p t))) \<subseteq> set (projNames (snd (EnsureExists p t)))"
    using dm by (auto simp: EnsureExists_md EnsureExists_projNames split: if_splits)
  have 4: "dom jdm \<subseteq> set (repoNames (snd (EnsureExists p t)))"
    if "md (snd (EnsureExists p t)) q = Some jdm" for q jdm
  proof (cases "md t p = None \<and> q = p")
    case True
    with that have "jdm = Map.empty" by (simp add: EnsureExists_md)
    then show ?thesis by simp
  next
    case False
    with that have "md t q = Some jdm" by (auto simp: EnsureExists_md split: if_splits)
    then show ?thesis using dj by (simp add: EnsureExists_repoNames)
  qed
  show ?thesis
    unfolding storeInv_def using 1 2 3 4 by blast
qed

lemma EnsureRepo_inv:
  assumes "storeInv t cs"
  shows "storeInv (snd (EnsureRepo p r t)) (cs @ [CallEnsureRepo p r])"
proof -
  let ?t' = "snd (EnsureRepo p r t)"
  from assms have pn: "projNames t = firstSeen (map callProject cs)"
    and rn: "repoNames t = firstSeen (concat (map callRepos cs))"
    and dm: "dom (md t) \<subseteq> set (projNames t)"
    unfolding storeInv_def by blast+
  from assms have dj: "dom jdm \<subseteq> set (repoNames t)" if "md t q = Some jdm" for q jdm
    unfolding storeInv_def using that by blast
  have mem: "md t p \<noteq> None \<Longrightarrow> p \<in> set (projNames t)"
    using dm by auto
  have lp: "dom (lookupProject t p) \<subseteq> set (repoNames t)"
    using dj by (auto simp: lookupProject_def split: option.splits)
  have 1: "projNames ?t' = firstSeen (map callProject (cs @ [CallEnsureRepo p r]))"
    using mem by (auto simp: EnsureRepo_projNames EnsureExists_projNames firstSeen_snoc pn set_firstSeen)
  have rmem: "lookupProject t p r \<noteq> None \<Longrightarrow> r \<in> set (repoNames t)"
    using lp by auto
  have 2: "repoNames ?t' = firstSeen (concat (map callRepos (cs @ [CallEnsureRepo p r])))"
    using rmem by (auto simp: EnsureRepo_repoNames firstSeen_snoc rn set_firstSeen)
  have 3: "dom (md ?t') \<subseteq> set (projNames ?t')"
    using dm by (auto simp: EnsureRepo_md EnsureRepo_projNames EnsureExists_projNames split: if_splits)
  have sub: "set (repoNames t) \<subseteq> set (repoNames ?t')"
    by (auto simp: EnsureRepo_repoNames)
  have rin: "r \<in> set (repoNames ?t')"
    using rmem by (auto simp: EnsureRepo_repoNames)
  have 4: "dom jdm \<subseteq> set (repoNames ?t')" if "md ?t' q = Some jdm" for q jdm
  proof (cases "q = p")
    case True
    with that have "dom jdm \<subseteq> insert r (dom (lookupProject t p))"
      by (auto simp: EnsureRepo_md split: option.splits if_splits)
    then show ?thesis using lp sub rin by blast
  next
    case False
    with that have "md t q = Some jdm" by (simp add: EnsureRepo_md)
    then show ?thesis using dj sub by blast
  qed
  show ?thesis
    unfolding storeInv_def using 1 2 3 4 by blast
qed

lemma runCalls_inv: "storeInv (runCalls cs) cs"
proof (induction cs rule: rev_induct)
  case Nil
  show ?case by (simp add: storeInv_def runCalls_def NewTestGridMetaData_def)
next
  case (snoc c cs)
  then show ?case
    by (cases c) (simp_all add: runCalls_snoc EnsureExists_inv EnsureRepo_inv)
qed


text \<open>
  C5. After any sequence of \<open>EnsureExists\<close> and \<open>EnsureRepo\<close> calls on the empty store,
  \<open>projNames\<close> and \<open>repoNames\<close> have no duplicates and list the project names and the
  repository names of the calls in first-seen order; every project key of the store's
  map is in \<open>projNames\<close>, and every repository key of any project's \<open>JobDetailMap\<close> is in
  \<open>repoNames\<close>.
\<close>

theorem store_order_invariant:
  "distinct (projNames (runCalls cs)) \<and>
   distinct (repoNames (runCalls cs)) \<and>
   projNames (runCalls cs) = firstSeen (map callProject cs) \<and>
   repoNames (runCalls cs) = firstSeen (concat (map callRepos cs)) \<and>
   (\<forall>p. md (runCalls cs) p \<noteq> None \<longrightarrow> p \<in> set (projNames (runCalls cs))) \<and>
   (\<forall>p jdm r. md (runCalls cs) p = Some jdm \<longrightarrow> jdm r \<noteq> None \<longrightarrow>
      r \<in> set (repoNames (runCalls cs)))"
proof -
  have inv: "storeInv (runCalls cs) cs" by (rule runCalls_inv)
  then have pn: "projNames (runCalls cs) = firstSeen (map callProject cs)"
    and rn: "repoNames (runCalls cs) = firstSeen (concat (map callRepos cs))"
    and dm: "dom (md (runCalls cs)) \<subseteq> set (projNames (runCalls cs))"
    unfolding storeInv_def by blast+
  from inv have dj: "dom jdm \<subseteq> set (repoNames (runCalls cs))"
    if "md (runCalls cs) p = Some jdm" for p jdm
    unfolding storeInv_def using that by blast
  have d1: "distinct (projNames (runCalls cs))" by (simp add: pn distinct_firstSeen)
  have d2: "distinct (repoNames (runCalls cs))" by (simp add: rn distinct_firstSeen)
  have k1: "\<forall>p. md (runCalls cs) p \<noteq> None \<longrightarrow> p \<in> set (projNames (runCalls cs))"
    using dm by (auto simp: dom_def)
  have k2: "\<forall>p jdm r. md (runCalls cs) p = Some jdm \<longrightarrow> jdm r \<noteq> None \<longrightarrow>
      r \<in> set (repoNames (runCalls cs))"
    using dj by (auto simp: dom_def)
  from d1 d2 pn rn k1 k2 show ?thesis by blast
qed

theorem store_order_invariant_witness:
  "projNames (runCalls exampleCalls) = [''knative'', ''google''] \<and>
   repoNames (runCalls exampleCalls) = [''serving'', ''eventing''] \<and>
   md (runCalls exampleCalls) ''google'' \<noteq> None \<and>
   ''google'' \<in> set (projNames (runCalls exampleCalls)) \<and>
   lookupProject (runCalls exampleCalls) ''knative'' ''eventing'' \<noteq> None \<and>
   ''eventing'' \<in> set (repoNames (runCalls exampleCalls))"
proof -
  note inst = store_order_invariant [of exampleCalls]
  have fs1: "firstSeen (map callProject exampleCalls) = [''knative'', ''google'']"
    by (simp add: exampleCalls_def)
  have fs2: "firstSeen (concat (map callRepos exampleCalls)) = [''serving'', ''eventing'']"
    by (simp add: exampleCalls_def)
  have m1: "md (runCalls exampleCalls) ''google'' \<noteq> None"
    by (simp add: exampleCalls_def runCalls_def NewTestGridMetaData_def EnsureRepo_md
        EnsureExists_md lookupProject_def)
  obtain jdm where j: "md (runCalls exampleCalls) ''knative'' = Some jdm"
    and jr: "jdm ''eventing'' \<noteq> None"
    by (simp add: exampleCalls_def runCalls_def NewTestGridMetaData_def EnsureRepo_md
        EnsureExists_md lookupProject_def)
  have l: "lookupProject (runCalls exampleCalls) ''knative'' ''eventing'' \<noteq> None"
    using j jr by (simp add: lookupProject_def)
  from inst m1 have p: "''google'' \<in> set (projNames (runCalls exampleCalls))" by blast
  from inst j jr have r: "''eventing'' \<in> set (repoNames (runCalls exampleCalls))" by blast
  from inst fs1 fs2 m1 p l r show ?thesis by simp
qed



section \<open>Test group names and log directories: theorems\<close>

text \<open>\<open>strings.ToLower\<close> is \<open>strings.Map\<close> of \<open>unicode.ToLower\<close> on every string, the
  ASCII ones too, and it works piece by piece around an ASCII byte: no UTF-8 sequence
  runs across one.\<close>

lemma DecodeRuneInString_ascii:
  "(of_char c :: nat) < 0x80 \<Longrightarrow> DecodeRuneInString (c # t) = (of_char c, 1)"
  by (simp add: DecodeRuneInString_def)

lemma EncodeRune_lower_ascii:
  "(of_char c :: nat) < 0x80 \<Longrightarrow>
   unicodeToLower e (of_char c) \<ge> 0 \<and> EncodeRune (nat (unicodeToLower e (of_char c))) = [lowerByte c]"
  by (auto simp: unicodeToLower_def EncodeRune_def lowerByte_def Let_def)

lemma strings_Map_ascii_Cons:
  assumes "(of_char c :: nat) < 0x80"
  shows "strings_Map (unicodeToLower e) (c # t) = lowerByte c # strings_Map (unicodeToLower e) t"
  using EncodeRune_lower_ascii [OF assms, of e]
  by (subst strings_Map.simps) (simp add: DecodeRuneInString_ascii [OF assms] Let_def)

lemma strings_Map_Nil: "strings_Map f [] = []"
  by (subst strings_Map.simps) simp

lemma strings_Map_all_ascii:
  "list_all (\<lambda>c. (of_char c :: nat) < 0x80) s \<Longrightarrow> strings_Map (unicodeToLower e) s = map lowerByte s"
  by (induction s) (simp_all add: strings_Map_Nil strings_Map_ascii_Cons)

lemma ToLower_eq_Map: "ToLower e s = strings_Map (unicodeToLower e) s"
  by (simp add: ToLower_def strings_Map_all_ascii)

lemma acceptRange_Some:
  "acceptRange s0 = Some (sz, lo, hi) \<Longrightarrow> (sz = 2 \<or> sz = 3 \<or> sz = 4) \<and> 0x80 \<le> lo"
  by (auto simp: acceptRange_def split: if_splits)

lemma DecodeRuneInString_width_le: "snd (DecodeRuneInString s) \<le> length s"
  by (auto simp: DecodeRuneInString_def Let_def split: list.splits option.splits)

lemma DecodeRuneInString_append_ascii:
  assumes "s \<noteq> []" and c: "(of_char c :: nat) < 0x80"
  shows "DecodeRuneInString (s @ c # t) = DecodeRuneInString s"
proof -
  from assms obtain c0 r0 where s: "s = c0 # r0" by (cases s) auto
  show ?thesis
  proof (cases "(of_char c0 :: nat) < 0x80")
    case True
    then show ?thesis by (simp add: s DecodeRuneInString_def)
  next
    case hi0: False
    show ?thesis
    proof (cases "acceptRange (of_char c0)")
      case None
      with hi0 show ?thesis by (simp add: s DecodeRuneInString_def)
    next
      case (Some a)
      obtain sz lo hi where a: "a = (sz, lo, hi)" by (cases a)
      from acceptRange_Some [of "of_char c0" sz lo hi] Some a
      have sz: "sz = 2 \<or> sz = 3 \<or> sz = 4" and lo: "0x80 \<le> lo" by auto
      show ?thesis
      proof (cases r0)
        case Nil
        with hi0 Some a sz lo c show ?thesis
          by (auto simp: s DecodeRuneInString_def Let_def)
      next
        case r0: (Cons c1 r1)
        show ?thesis
        proof (cases r1)
          case Nil
          with hi0 Some a sz lo c r0 show ?thesis
            by (auto simp: s DecodeRuneInString_def Let_def)
        next
          case r1: (Cons c2 r2)
          show ?thesis
          proof (cases r2)
            case Nil
            with hi0 Some a sz lo c r0 r1 show ?thesis
              by (auto simp: s DecodeRuneInString_def Let_def)
          next
            case (Cons c3 r3)
            with hi0 Some a sz lo c r0 r1 show ?thesis
              by (auto simp: s DecodeRuneInString_def Let_def)
          qed
        qed
      qed
    qed
  qed
qed

lemma strings_Map_append_ascii:
  assumes c: "(of_char c :: nat) < 0x80"
  shows "strings_Map f (s @ c # t) = strings_Map f s @ strings_Map f (c # t)"
proof (induction f s rule: strings_Map.induct)
  case (1 f s)
  show ?case
  proof (cases "s = []")
    case True
    then show ?thesis by (simp add: strings_Map_Nil)
  next
    case False
    let ?cw = "DecodeRuneInString s"
    have d: "DecodeRuneInString (s @ c # t) = ?cw"
      by (rule DecodeRuneInString_append_ascii [OF False c])
    have ih: "strings_Map f (drop (snd ?cw) s @ c # t) =
                strings_Map f (drop (snd ?cw) s) @ strings_Map f (c # t)"
      by (rule "1.IH" [OF False refl refl])
    have "strings_Map f (s @ c # t) =
            (if f (fst ?cw) \<ge> 0 then EncodeRune (nat (f (fst ?cw))) else []) @
            strings_Map f (drop (snd ?cw) s @ c # t)"
      using DecodeRuneInString_width_le [of s]
      by (subst strings_Map.simps) (simp add: d Let_def)
    also have "\<dots> = ((if f (fst ?cw) \<ge> 0 then EncodeRune (nat (f (fst ?cw))) else []) @
            strings_Map f (drop (snd ?cw) s)) @ strings_Map f (c # t)"
      by (simp only: ih append_assoc)
    also have "(if f (fst ?cw) \<ge> 0 then EncodeRune (nat (f (fst ?cw))) else []) @
            strings_Map f (drop (snd ?cw) s) = strings_Map f s"
      using False by (subst (2) strings_Map.simps) (simp add: Let_def)
    finally show ?thesis .
  qed
qed

lemma ToLower_ascii_Cons:
  "(of_char c :: nat) < 0x80 \<Longrightarrow> ToLower e (c # t) = lowerByte c # ToLower e t"
  by (simp only: ToLower_eq_Map strings_Map_ascii_Cons)

lemma ToLower_Nil: "ToLower e [] = []"
  by (simp add: ToLower_def)

lemma ToLower_ascii_prefix:
  "list_all (\<lambda>c. (of_char c :: nat) < 0x80) a \<Longrightarrow> ToLower e (a @ t) = map lowerByte a @ ToLower e t"
  by (induction a) (simp_all add: ToLower_ascii_Cons)

lemma ToLower_append_ascii:
  "(of_char c :: nat) < 0x80 \<Longrightarrow> ToLower e (s @ c # t) = ToLower e s @ lowerByte c # ToLower e t"
  by (simp only: ToLower_eq_Map strings_Map_append_ascii strings_Map_ascii_Cons)

lemma ToLower_ascii_suffix:
  assumes "list_all (\<lambda>c. (of_char c :: nat) < 0x80) a"
  shows "ToLower e (s @ a) = ToLower e s @ map lowerByte a"
proof (cases a)
  case Nil
  then show ?thesis by simp
next
  case (Cons c a')
  with assms have c: "(of_char c :: nat) < 0x80" and a': "list_all (\<lambda>c. (of_char c :: nat) < 0x80) a'"
    by simp_all
  from ToLower_ascii_prefix [OF a', of e "[]"] have "ToLower e a' = map lowerByte a'"
    by (simp add: ToLower_Nil)
  with ToLower_append_ascii [OF c, of e s a'] Cons show ?thesis by simp
qed


lemma ascii_ci: "list_all (\<lambda>c. (of_char c :: nat) < 0x80) ''ci-''"
  by simp

lemma ascii_release: "list_all (\<lambda>c. (of_char c :: nat) < 0x80) ''-release''"
  by simp

lemma ascii_test_coverage: "list_all (\<lambda>c. (of_char c :: nat) < 0x80) ''-test-coverage''"
  by simp

lemma lower_ci: "map lowerByte ''ci-'' = ''ci-''"
  by (simp add: lowerByte_def)

lemma lower_release: "map lowerByte ''-release'' = ''-release''"
  by (simp add: lowerByte_def)

lemma lower_test_coverage: "map lowerByte ''-test-coverage'' = ''-test-coverage''"
  by (simp add: lowerByte_def)

lemma lower_dash: "(of_char (CHR ''-'') :: nat) < 0x80 \<and> lowerByte (CHR ''-'') = CHR ''-''"
  by (simp add: lowerByte_def)

lemma getTestGroupName_parts:
  "getTestGroupName e repo job =
     ''ci-'' @ ToLower e repo @ ''-'' @ ToLower e job @ (if job = ''nightly'' then ''-release'' else [])"
proof -
  have p: "ToLower e (''ci-'' @ repo @ ''-'' @ t) = ''ci-'' @ ToLower e repo @ ''-'' @ ToLower e t" for t
  proof -
    have "ToLower e (''ci-'' @ (repo @ CHR ''-'' # t)) = map lowerByte ''ci-'' @ ToLower e (repo @ CHR ''-'' # t)"
      by (rule ToLower_ascii_prefix [OF ascii_ci])
    also have "ToLower e (repo @ CHR ''-'' # t) = ToLower e repo @ lowerByte (CHR ''-'') # ToLower e t"
      using lower_dash by (intro ToLower_append_ascii) simp
    finally show ?thesis using lower_dash lower_ci by simp
  qed
  have r: "ToLower e (job @ ''-release'') = ToLower e job @ ''-release''"
    using ToLower_ascii_suffix [OF ascii_release, of e job] by (simp only: lower_release)
  show ?thesis
  proof (cases "job = ''nightly''")
    case True
    have "getTestGroupName e repo job = ToLower e (''ci-'' @ repo @ ''-'' @ (job @ ''-release''))"
      by (simp only: getTestGroupName_def if_P [OF True])
    also have "\<dots> = ''ci-'' @ ToLower e repo @ ''-'' @ ToLower e (job @ ''-release'')"
      by (rule p)
    also have "\<dots> = ''ci-'' @ ToLower e repo @ ''-'' @ ToLower e job @ ''-release''"
      by (simp only: r)
    finally show ?thesis by (simp only: if_P [OF True])
  next
    case False
    have "getTestGroupName e repo job = ToLower e (''ci-'' @ repo @ ''-'' @ job)"
      by (simp only: getTestGroupName_def if_not_P [OF False])
    also have "\<dots> = ''ci-'' @ ToLower e repo @ ''-'' @ ToLower e job"
      by (rule p)
    finally show ?thesis by (simp only: if_not_P [OF False] append_Nil2)
  qed
qed

text \<open>
  C2, as stated: the group-name builder returns the lowercased \<open>{repo}-{jobKind}\<close>, so
  that \<open>Serving\<close> and \<open>nightly\<close> give \<open>serving-nightly-release\<close>. It fails: the name the
  code builds starts with \<open>ci-\<close>.
\<close>

theorem getTestGroupName_counterexample:
  "getTestGroupName exampleEnv ''Serving'' ''nightly'' \<noteq> ''serving-nightly-release''"
  by (simp add: getTestGroupName_parts)

text \<open>
  C2, amended. For every repo and job kind, \<open>getTestGroupName\<close> returns the lowercased
  \<open>ci-{repo}-{jobKind}\<close>, and for the job kind \<open>nightly\<close> the lowercased
  \<open>ci-{repo}-nightly-release\<close>; \<open>Serving\<close> with \<open>nightly\<close> gives
  \<open>ci-serving-nightly-release\<close> and \<open>Eventing\<close> with \<open>continuous\<close> gives
  \<open>ci-eventing-continuous\<close>.
\<close>

theorem getTestGroupName_ci_prefix:
  "getTestGroupName e repo job =
     ''ci-'' @ ToLower e repo @ ''-'' @ ToLower e job @ (if job = ''nightly'' then ''-release'' else []) \<and>
   getTestGroupName e ''Serving'' ''nightly'' = ''ci-serving-nightly-release'' \<and>
   getTestGroupName e ''Eventing'' ''continuous'' = ''ci-eventing-continuous''"
proof -
  have s: "ToLower e ''Serving'' = ''serving''" "ToLower e ''nightly'' = ''nightly''"
    "ToLower e ''Eventing'' = ''eventing''" "ToLower e ''continuous'' = ''continuous''"
    by (simp_all add: ToLower_def) code_simp+
  have 2: "getTestGroupName e ''Serving'' ''nightly'' = ''ci-serving-nightly-release''"
    by (simp add: getTestGroupName_parts s)
  have 3: "getTestGroupName e ''Eventing'' ''continuous'' = ''ci-eventing-continuous''"
    by (simp add: getTestGroupName_parts s)
  from getTestGroupName_parts [of e repo job] 2 3 show ?thesis by blast
qed

lemma generateTestGroup_loop_map:
  "generateTestGroup_loop e proj prs jobs out =
     out @ map (\<lambda>job. TestGroupEntry
        \<lparr> TestGroupName = getTestGroupName e prs job,
          GcsLogDir = GCSBucket e @ ''/'' @ LogsDir e @ ''/'' @
            (if job = ''test-coverage'' then ''ci-'' @ prs @ ''-go-coverage''
             else getTestGroupName e prs job),
          Extras = getTestgroupExtras e proj job \<rparr>) jobs"
  by (induction jobs arbitrary: out)
     (simp_all add: generateTestGroup_job_def executeTestGroupTemplate_def getGcsLogDir_def Let_def)

lemma coverage_names_differ: "a @ ''-go-coverage'' \<noteq> b @ ''-test-coverage''"
proof
  assume "a @ ''-go-coverage'' = b @ ''-test-coverage''"
  then have "take 12 (rev (a @ ''-go-coverage'')) = take 12 (rev (b @ ''-test-coverage''))"
    by simp
  then show False by simp
qed

text \<open>
  C10. In the test-group pass every job name yields one test group, in order. Its log
  directory is \<open>GCSBucket/LogsDir/\<close> followed by the test group's own name, except for
  the job kind \<open>test-coverage\<close>, where it is followed by \<open>ci-{project-repo}-go-coverage\<close>;
  the group's own name there is the lowercased \<open>ci-{project-repo}-test-coverage\<close>, and
  the two directories differ.
\<close>

theorem generateTestGroup_log_dir:
  "generateTestGroup e proj repo jobs out =
     out @ map (\<lambda>job. TestGroupEntry
        \<lparr> TestGroupName = getTestGroupName e (buildProjRepoStr e proj repo) job,
          GcsLogDir = GCSBucket e @ ''/'' @ LogsDir e @ ''/'' @
            (if job = ''test-coverage''
             then ''ci-'' @ buildProjRepoStr e proj repo @ ''-go-coverage''
             else getTestGroupName e (buildProjRepoStr e proj repo) job),
          Extras = getTestgroupExtras e proj job \<rparr>) jobs \<and>
   getTestGroupName e (buildProjRepoStr e proj repo) ''test-coverage'' =
     ''ci-'' @ ToLower e (buildProjRepoStr e proj repo) @ ''-test-coverage'' \<and>
   getGcsLogDir e (''ci-'' @ buildProjRepoStr e proj repo @ ''-go-coverage'') \<noteq>
     getGcsLogDir e (getTestGroupName e (buildProjRepoStr e proj repo) ''test-coverage'')"
proof -
  let ?prs = "buildProjRepoStr e proj repo"
  have 1: "generateTestGroup e proj repo jobs out =
     out @ map (\<lambda>job. TestGroupEntry
        \<lparr> TestGroupName = getTestGroupName e ?prs job,
          GcsLogDir = GCSBucket e @ ''/'' @ LogsDir e @ ''/'' @
            (if job = ''test-coverage''
             then ''ci-'' @ ?prs @ ''-go-coverage''
             else getTestGroupName e ?prs job),
          Extras = getTestgroupExtras e proj job \<rparr>) jobs"
    by (simp only: generateTestGroup_def generateTestGroup_loop_map)
  have "ToLower e ''test-coverage'' = ''test-coverage''"
    by (simp add: ToLower_def lowerByte_def)
  then have 2: "getTestGroupName e ?prs ''test-coverage'' = ''ci-'' @ ToLower e ?prs @ ''-test-coverage''"
    by (simp add: getTestGroupName_parts)
  have "(''ci-'' @ ?prs) @ ''-go-coverage'' \<noteq> (''ci-'' @ ToLower e ?prs) @ ''-test-coverage''"
    by (rule coverage_names_differ)
  with 2 have "''ci-'' @ ?prs @ ''-go-coverage'' \<noteq> getTestGroupName e ?prs ''test-coverage''"
    by simp
  then have 3: "getGcsLogDir e (''ci-'' @ ?prs @ ''-go-coverage'') \<noteq>
     getGcsLogDir e (getTestGroupName e ?prs ''test-coverage'')"
    by (simp add: getGcsLogDir_def)
  from 1 2 3 show ?thesis by blast
qed


section \<open>The section generator: theorems\<close>

text \<open>
  C3 says that \<open>generateTestGridSection\<close> on the empty store emits the section header
  and then exactly one placeholder entry. What the function does there, whatever the
  generator: it emits the header and nothing else. \<open>oldCount\<close> is read before the header
  is written, so the count after the walk is never the old one.
\<close>

theorem generateTestGridSection_empty_store:
  "generateTestGridSection e sectionName generator skipReleasedProj NewTestGridMetaData out =
     out @ [ConfigLine (sectionName @ '':'')]"
  by (simp add: generateTestGridSection_def NewTestGridMetaData_def outputConfig_def count_def Let_def)

text \<open>The same on every store, as long as the generator only adds to the output: the
  function is the header followed by the walk, and the placeholder is never written.\<close>

lemma sectionRepos_grows:
  "(\<And>p r js out. length out \<le> length (generator p r js out)) \<Longrightarrow>
   length out \<le> length (sectionRepos generator projName repos rs out)"
proof (induction rs arbitrary: out)
  case Nil
  show ?case by simp
next
  case (Cons r rs)
  have "length out \<le> length (case repos r of
          Some jobNames \<Rightarrow> generator projName r jobNames out | None \<Rightarrow> out)"
    using Cons.prems by (cases "repos r") simp_all
  also have "\<dots> \<le> length (sectionRepos generator projName repos (r # rs) out)"
    using Cons.IH [OF Cons.prems] by simp
  finally show ?case .
qed

lemma sectionProjects_grows:
  "(\<And>p r js out. length out \<le> length (generator p r js out)) \<Longrightarrow>
   length out \<le> length (sectionProjects e generator skip t ps out)"
proof (induction ps arbitrary: out)
  case Nil
  show ?case by simp
next
  case (Cons p ps)
  have "length out \<le> length (if skip \<and> isReleased e p then out
          else sectionRepos generator p (lookupProject t p) (repoNames t) out)"
    using sectionRepos_grows [of generator, OF Cons.prems] by simp
  also have "\<dots> \<le> length (sectionProjects e generator skip t (p # ps) out)"
    using Cons.IH [OF Cons.prems] by simp
  finally show ?case .
qed

lemma generateTestGridSection_no_placeholder:
  assumes "\<And>p r js out. length out \<le> length (generator p r js out)"
  shows "generateTestGridSection e sectionName generator skip t out =
           sectionProjects e generator skip t (projNames t)
             (out @ [ConfigLine (sectionName @ '':'')])"
proof -
  have "length (out @ [ConfigLine (sectionName @ '':'')]) \<le>
          length (sectionProjects e generator skip t (projNames t)
                    (out @ [ConfigLine (sectionName @ '':'')]))"
    by (rule sectionProjects_grows [of generator, OF assms])
  then have "length (sectionProjects e generator skip t (projNames t)
                    (out @ [ConfigLine (sectionName @ '':'')])) \<noteq> length out"
    by simp
  then show ?thesis
    by (simp add: generateTestGridSection_def Let_def count_def outputConfig_def)
qed


section \<open>The policy table and the dashboard tabs: theorems\<close>

lemma email4:
  "FindStringSubmatch1 (nl # ''    alert_mail_to_addresses: '' @ dq # ''serverless-engprod-sea@google.com'' @ [dq])
     = Some ''serverless-engprod-sea@google.com''"
  by code_simp

lemma email6:
  "FindStringSubmatch1 (nl # ''      alert_mail_to_addresses: '' @ dq # ''serverless-engprod-sea@google.com'' @ [dq])
     = Some ''serverless-engprod-sea@google.com''"
  by code_simp


text \<open>
  C1, as stated: the extras of the dashboard tab emitted for a project and job kind are
  the extras that \<open>getTestgroupExtras\<close> returns for the pair. It fails for the job kind
  \<open>webhook-apicoverage\<close>: the tab gets no extras, the resolver sets
  \<open>alert_stale_results_hours\<close> to 48.
\<close>

theorem dashboard_extras_counterexample:
  "tabExtrasOf (generateDashboard exampleEnv ''knative'' ''serving'' [''webhook-apicoverage''] [])
     = [Map.empty] \<and>
   getTestgroupExtras exampleEnv ''knative'' ''webhook-apicoverage'' ''alert_stale_results_hours''
     = Some ''48'' \<and>
   tabExtrasOf (generateDashboard exampleEnv ''knative'' ''serving'' [''webhook-apicoverage''] [])
     \<noteq> [getTestgroupExtras exampleEnv ''knative'' ''webhook-apicoverage'']"
proof -
  have 1: "tabExtrasOf (generateDashboard exampleEnv ''knative'' ''serving'' [''webhook-apicoverage''] [])
     = [Map.empty]"
    by (simp add: generateDashboard_def generateDashboard_job_def Let_def outputConfig_def
        executeDashboardTabTemplate_def)
  have 2: "getTestgroupExtras exampleEnv ''knative'' ''webhook-apicoverage'' ''alert_stale_results_hours''
     = Some ''48''"
    by (simp add: getTestgroupExtras_def)
  have "Map.empty \<noteq> getTestgroupExtras exampleEnv ''knative'' ''webhook-apicoverage''"
    using 2 by (metis option.distinct(1))
  with 1 have 3: "tabExtrasOf (generateDashboard exampleEnv ''knative'' ''serving'' [''webhook-apicoverage''] [])
     \<noteq> [getTestgroupExtras exampleEnv ''knative'' ''webhook-apicoverage'']"
    by simp
  from 1 2 3 show ?thesis by blast
qed

lemma dashAlert_dom: "dom (dashAlert n) = {''num_failures_to_alert'', ''alert_options''}"
  by (auto simp: dashAlert_def)

lemma dashAlert_nfa: "dashAlert n ''num_failures_to_alert'' = Some n"
  by (simp add: dashAlert_def)

lemma dashAlert_email:
  "\<exists>w. dashAlert n ''alert_options'' = Some w \<and>
       FindStringSubmatch1 w = Some ''serverless-engprod-sea@google.com''"
  using email6 by (simp add: dashAlert_def del: FindStringSubmatch1.simps)

lemma resolver_nfa:
  "getTestgroupExtras e proj job ''num_failures_to_alert'' \<noteq> None \<Longrightarrow>
   getTestgroupExtras e proj job ''num_failures_to_alert'' =
     (if job = ''continuous'' then Some ''3'' else Some ''1'') \<and>
   (job = ''continuous'' \<or> job = ''dot-release'' \<or> job = ''auto-release'' \<or> job = ''nightly'')"
  by (simp add: getTestgroupExtras_def split: if_splits)

lemma resolver_email:
  "getTestgroupExtras e proj job ''alert_options'' = Some v \<Longrightarrow>
   FindStringSubmatch1 v = Some ''serverless-engprod-sea@google.com'' \<and>
   (job = ''continuous'' \<or> job = ''dot-release'' \<or> job = ''auto-release'' \<or> job = ''nightly'')"
  using email4 by (auto simp add: getTestgroupExtras_def simp del: FindStringSubmatch1.simps split: if_splits)



lemma tabExtrasOf_append: "tabExtrasOf (xs @ ys) = tabExtrasOf xs @ tabExtrasOf ys"
  by (induction xs rule: tabExtrasOf.induct) simp_all

lemma generateDashboard_job_tabs:
  "tabExtrasOf (generateDashboard_job e prs job out) =
     tabExtrasOf out @
     replicate (if job = ''continuous'' \<and> prs = ''knative-serving'' then 2 else 1)
       (dashboardExtras job)"
  by (simp add: generateDashboard_job_def Let_def executeDashboardTabTemplate_def
        tabExtrasOf_append dashboardExtras_def dashAlert_def numeral_2_eq_2)

lemma generateDashboard_loop_tabs:
  "tabExtrasOf (generateDashboard_loop e prs jobs out) =
     tabExtrasOf out @
     concat (map (\<lambda>job. replicate (if job = ''continuous'' \<and> prs = ''knative-serving'' then 2 else 1)
                          (dashboardExtras job)) jobs)"
proof (induction jobs arbitrary: out)
  case Nil
  show ?case by simp
next
  case (Cons job jobs)
  show ?case
    by (simp only: generateDashboard_loop.simps Cons.IH generateDashboard_job_tabs
        list.map concat.simps append_assoc)
qed

lemma dashboardExtras_agree:
  "dom (dashboardExtras job) \<subseteq> {''num_failures_to_alert'', ''alert_options''} \<and>
   dashboardExtras job ''num_failures_to_alert'' =
     (if job = ''continuous'' then Some ''3''
      else if job = ''dot-release'' \<or> job = ''auto-release'' \<or> job = ''nightly'' then Some ''1''
      else None) \<and>
   (getTestgroupExtras e proj job ''num_failures_to_alert'' \<noteq> None \<longrightarrow>
      dashboardExtras job ''num_failures_to_alert'' =
        getTestgroupExtras e proj job ''num_failures_to_alert'') \<and>
   (\<forall>v. getTestgroupExtras e proj job ''alert_options'' = Some v \<longrightarrow>
      (\<exists>w. dashboardExtras job ''alert_options'' = Some w \<and>
           FindStringSubmatch1 w = FindStringSubmatch1 v))"
proof -
  let ?x = "dashboardExtras job"
  let ?alerting = "job = ''continuous'' \<or> job = ''dot-release'' \<or> job = ''auto-release'' \<or> job = ''nightly''"
  have a: "dom ?x \<subseteq> {''num_failures_to_alert'', ''alert_options''}"
    by (simp add: dashboardExtras_def dashAlert_dom)
  have b: "?x ''num_failures_to_alert'' =
        (if job = ''continuous'' then Some ''3''
         else if job = ''dot-release'' \<or> job = ''auto-release'' \<or> job = ''nightly'' then Some ''1''
         else None)"
    by (simp add: dashboardExtras_def dashAlert_nfa)
  have c: "?x ''num_failures_to_alert'' = getTestgroupExtras e proj job ''num_failures_to_alert''"
    if "getTestgroupExtras e proj job ''num_failures_to_alert'' \<noteq> None"
    using resolver_nfa [OF that] b by auto
  have d: "\<exists>w. ?x ''alert_options'' = Some w \<and> FindStringSubmatch1 w = FindStringSubmatch1 v"
    if "getTestgroupExtras e proj job ''alert_options'' = Some v" for v
  proof -
    from resolver_email [OF that]
    have v: "FindStringSubmatch1 v = Some ''serverless-engprod-sea@google.com''"
      and al: ?alerting by blast+
    from al obtain n where "?x = dashAlert n" by (auto simp: dashboardExtras_def)
    with dashAlert_email [of n] v show ?thesis by simp
  qed
  from a b c d show ?thesis by blast
qed

text \<open>
  C1, amended. \<open>generateDashboard\<close> has a table of its own, keyed by the job kind alone.
  For every job list and every prior output, the tabs it adds carry, in the order of
  the job names, the extras of that table, one tab a job name and two for \<open>continuous\<close>
  in \<open>knative-serving\<close>. The table holds no keys but \<open>num_failures_to_alert\<close> and
  \<open>alert_options\<close>; \<open>num_failures_to_alert\<close> is 3 for \<open>continuous\<close>, 1 for \<open>dot-release\<close>,
  \<open>auto-release\<close> and \<open>nightly\<close>, and absent otherwise. Where \<open>getTestgroupExtras\<close> sets
  \<open>num_failures_to_alert\<close> the table has the same value, and where it sets
  \<open>alert_options\<close> the table has an \<open>alert_options\<close> with the same embedded email.
\<close>

theorem dashboard_tab_extras:
  "tabExtrasOf (generateDashboard e proj repo jobs out) =
     tabExtrasOf out @
     concat (map (\<lambda>job. replicate
                    (if job = ''continuous'' \<and> buildProjRepoStr e proj repo = ''knative-serving''
                     then 2 else 1)
                    (dashboardExtras job)) jobs) \<and>
   (\<forall>job.
      dom (dashboardExtras job) \<subseteq> {''num_failures_to_alert'', ''alert_options''} \<and>
      dashboardExtras job ''num_failures_to_alert'' =
        (if job = ''continuous'' then Some ''3''
         else if job = ''dot-release'' \<or> job = ''auto-release'' \<or> job = ''nightly'' then Some ''1''
         else None) \<and>
      (getTestgroupExtras e proj job ''num_failures_to_alert'' \<noteq> None \<longrightarrow>
         dashboardExtras job ''num_failures_to_alert'' =
           getTestgroupExtras e proj job ''num_failures_to_alert'') \<and>
      (\<forall>v. getTestgroupExtras e proj job ''alert_options'' = Some v \<longrightarrow>
         (\<exists>w. dashboardExtras job ''alert_options'' = Some w \<and>
              FindStringSubmatch1 w = FindStringSubmatch1 v)))"
proof -
  have 1: "tabExtrasOf (generateDashboard e proj repo jobs out) =
     tabExtrasOf out @
     concat (map (\<lambda>job. replicate
                    (if job = ''continuous'' \<and> buildProjRepoStr e proj repo = ''knative-serving''
                     then 2 else 1)
                    (dashboardExtras job)) jobs)"
    by (simp add: generateDashboard_def Let_def generateDashboard_loop_tabs outputConfig_def
        tabExtrasOf_append)
  from 1 dashboardExtras_agree [of _ e proj] show ?thesis by blast
qed

theorem dashboard_tab_extras_witness:
  "tabExtrasOf (generateDashboard exampleEnv ''knative'' ''serving''
       [''continuous'', ''nightly'', ''webhook-apicoverage''] [ConfigLine ''dashboards:'']) =
     [dashboardExtras ''continuous'', dashboardExtras ''continuous'',
      dashboardExtras ''nightly'', dashboardExtras ''webhook-apicoverage''] \<and>
   getTestgroupExtras exampleEnv ''knative'' ''nightly'' ''num_failures_to_alert'' = Some ''1'' \<and>
   dashboardExtras ''nightly'' ''num_failures_to_alert'' =
     getTestgroupExtras exampleEnv ''knative'' ''nightly'' ''num_failures_to_alert'' \<and>
   (\<exists>v w. getTestgroupExtras exampleEnv ''knative'' ''nightly'' ''alert_options'' = Some v \<and>
      dashboardExtras ''nightly'' ''alert_options'' = Some w \<and>
      FindStringSubmatch1 w = FindStringSubmatch1 v)"
proof -
  note inst = dashboard_tab_extras [of exampleEnv "''knative''" "''serving''"
      "[''continuous'', ''nightly'', ''webhook-apicoverage'']" "[ConfigLine ''dashboards:'']"]
  note tabs = conjunct1 [OF inst]
  note agree = conjunct2 [OF inst, THEN spec, of "''nightly''"]
  have prs: "buildProjRepoStr exampleEnv ''knative'' ''serving'' = ''knative-serving''"
    by (simp add: exampleEnv_def)
  have "concat (map (\<lambda>job. replicate
                    (if job = ''continuous'' \<and> buildProjRepoStr exampleEnv ''knative'' ''serving'' = ''knative-serving''
                     then 2 else 1)
                    (dashboardExtras job)) [''continuous'', ''nightly'', ''webhook-apicoverage'']) =
     [dashboardExtras ''continuous'', dashboardExtras ''continuous'',
      dashboardExtras ''nightly'', dashboardExtras ''webhook-apicoverage'']"
    by (simp add: prs numeral_2_eq_2)
  with tabs have 1: "tabExtrasOf (generateDashboard exampleEnv ''knative'' ''serving''
       [''continuous'', ''nightly'', ''webhook-apicoverage''] [ConfigLine ''dashboards:'']) =
     [dashboardExtras ''continuous'', dashboardExtras ''continuous'',
      dashboardExtras ''nightly'', dashboardExtras ''webhook-apicoverage'']"
    by simp
  have n: "getTestgroupExtras exampleEnv ''knative'' ''nightly'' ''num_failures_to_alert'' = Some ''1''"
    by (simp add: getTestgroupExtras_def)
  obtain v where v: "getTestgroupExtras exampleEnv ''knative'' ''nightly'' ''alert_options'' = Some v"
    by (simp add: getTestgroupExtras_def)
  from agree n have 3: "dashboardExtras ''nightly'' ''num_failures_to_alert'' =
     getTestgroupExtras exampleEnv ''knative'' ''nightly'' ''num_failures_to_alert''"
    by (metis option.distinct(1))
  from agree v have 4: "\<exists>w. dashboardExtras ''nightly'' ''alert_options'' = Some w \<and>
      FindStringSubmatch1 w = FindStringSubmatch1 v"
    by blast
  from 1 n 3 4 v show ?thesis by blast
qed


section \<open>The annotations: theorems\<close>

text \<open>The search of \<open>FindStringSubmatch1\<close> finds a match exactly where the value has the
  shape the pattern describes.\<close>

lemma anyPlus_Cons_mem:
  "c \<noteq> nl \<Longrightarrow>
   (x # a', r) \<in> set (anyPlus (c # cs)) \<longleftrightarrow>
     x = c \<and> ((a', r) \<in> set (anyPlus cs) \<or> (a' = [] \<and> r = cs))"
  by (simp add: image_iff split_beta) (metis fst_conv snd_conv prod.collapse)

lemma anyPlus_Nil_mem: "([], r) \<notin> set (anyPlus s)"
  by (cases s) (simp_all add: image_iff split_beta)

lemma anyPlus_iff:
  "(a, r) \<in> set (anyPlus s) \<longleftrightarrow> s = a @ r \<and> a \<noteq> [] \<and> nl \<notin> set a"
proof (induction s arbitrary: a)
  case Nil
  show ?case by simp
next
  case (Cons c cs)
  show ?case
  proof (cases a)
    case Nil
    then show ?thesis using anyPlus_Nil_mem by blast
  next
    case a: (Cons x a')
    show ?thesis
    proof (cases "c = nl")
      case True
      then show ?thesis unfolding a by simp
    next
      case False
      have "(x # a', r) \<in> set (anyPlus (c # cs)) \<longleftrightarrow>
          x = c \<and> ((a', r) \<in> set (anyPlus cs) \<or> (a' = [] \<and> r = cs))"
        by (rule anyPlus_Cons_mem [OF False])
      also have "\<dots> \<longleftrightarrow> x = c \<and> ((cs = a' @ r \<and> a' \<noteq> [] \<and> nl \<notin> set a') \<or> (a' = [] \<and> r = cs))"
        by (simp only: Cons.IH)
      also have "\<dots> \<longleftrightarrow> c # cs = (x # a') @ r \<and> x # a' \<noteq> [] \<and> nl \<notin> set (x # a')"
        using False by (cases "a' = []") auto
      finally show ?thesis unfolding a .
    qed
  qed
qed

lemma lit_iff: "r \<in> set (lit c s) \<longleftrightarrow> s = c # r"
  by (cases s) auto



lemma anyPlus_iff':
  "p \<in> set (anyPlus s) \<longleftrightarrow> s = fst p @ snd p \<and> fst p \<noteq> [] \<and> nl \<notin> set (fst p)"
  by (cases p) (simp add: anyPlus_iff)

lemma matchHere_D:
  assumes "m \<in> set (matchHere s)"
  shows "\<exists>a b c post. m = a @ CHR ''@'' # b @ CHR ''.'' # c \<and>
        s = dq # a @ CHR ''@'' # b @ CHR ''.'' # c @ dq # post \<and>
        a \<noteq> [] \<and> b \<noteq> [] \<and> c \<noteq> [] \<and> nl \<notin> set a \<and> nl \<notin> set b \<and> nl \<notin> set c"
proof -
  from assms obtain r0 p1 r2 p2 r4 p3 r6 where
    "r0 \<in> set (lit dq s)" "p1 \<in> set (anyPlus r0)" "r2 \<in> set (lit (CHR ''@'') (snd p1))"
    "p2 \<in> set (anyPlus r2)" "r4 \<in> set (lit (CHR ''.'') (snd p2))"
    "p3 \<in> set (anyPlus r4)" "r6 \<in> set (lit dq (snd p3))"
    and m: "m = fst p1 @ CHR ''@'' # fst p2 @ CHR ''.'' # fst p3"
    unfolding matchHere_def by (auto simp: split_beta)
  then have s: "s = dq # r0" "r0 = fst p1 @ snd p1" "snd p1 = CHR ''@'' # r2"
    "r2 = fst p2 @ snd p2" "snd p2 = CHR ''.'' # r4" "r4 = fst p3 @ snd p3" "snd p3 = dq # r6"
    and ne: "fst p1 \<noteq> []" "fst p2 \<noteq> []" "fst p3 \<noteq> []"
    and nn: "nl \<notin> set (fst p1)" "nl \<notin> set (fst p2)" "nl \<notin> set (fst p3)"
    by (simp_all add: lit_iff anyPlus_iff')
  have "s = dq # fst p1 @ CHR ''@'' # fst p2 @ CHR ''.'' # fst p3 @ dq # r6"
    by (metis s)
  with m ne nn show ?thesis by blast
qed

lemma matchHere_I:
  assumes "a \<noteq> []" "b \<noteq> []" "c \<noteq> []" "nl \<notin> set a" "nl \<notin> set b" "nl \<notin> set c"
  shows "a @ CHR ''@'' # b @ CHR ''.'' # c \<in>
           set (matchHere (dq # a @ CHR ''@'' # b @ CHR ''.'' # c @ dq # post))"
proof -
  have 1: "(c, dq # post) \<in> set (anyPlus (c @ dq # post))"
    using assms by (simp add: anyPlus_iff)
  have 2: "(b, CHR ''.'' # c @ dq # post) \<in> set (anyPlus (b @ CHR ''.'' # c @ dq # post))"
    using assms by (simp add: anyPlus_iff)
  have 3: "(a, CHR ''@'' # b @ CHR ''.'' # c @ dq # post)
             \<in> set (anyPlus (a @ CHR ''@'' # b @ CHR ''.'' # c @ dq # post))"
    using assms by (simp add: anyPlus_iff)
  show ?thesis
    unfolding matchHere_def
    apply (simp add: split_beta)
    apply (rule bexI [OF _ 3])
    apply simp
    apply (rule bexI [OF _ 2])
    apply simp
    apply (rule bexI [OF _ 1])
    apply simp
    done
qed

lemma hasQuotedEmail_Nil: "\<not> hasQuotedEmail []"
  by (simp add: hasQuotedEmail_def)

lemma hasQuotedEmail_Cons:
  "hasQuotedEmail (x # xs) \<longleftrightarrow> matchHere (x # xs) \<noteq> [] \<or> hasQuotedEmail xs"
proof
  assume "hasQuotedEmail (x # xs)"
  then obtain pre a b c post where
    v: "x # xs = pre @ dq # a @ CHR ''@'' # b @ CHR ''.'' # c @ dq # post"
    and h: "a \<noteq> []" "b \<noteq> []" "c \<noteq> []" "nl \<notin> set a" "nl \<notin> set b" "nl \<notin> set c"
    unfolding hasQuotedEmail_def by blast
  show "matchHere (x # xs) \<noteq> [] \<or> hasQuotedEmail xs"
  proof (cases pre)
    case Nil
    with v have "x # xs = dq # a @ CHR ''@'' # b @ CHR ''.'' # c @ dq # post" by simp
    with matchHere_I [OF h, of post] have "matchHere (x # xs) \<noteq> []" by force
    then show ?thesis ..
  next
    case (Cons y pre')
    with v have "xs = pre' @ dq # a @ CHR ''@'' # b @ CHR ''.'' # c @ dq # post" by simp
    with h have "hasQuotedEmail xs" unfolding hasQuotedEmail_def by blast
    then show ?thesis ..
  qed
next
  assume "matchHere (x # xs) \<noteq> [] \<or> hasQuotedEmail xs"
  then show "hasQuotedEmail (x # xs)"
  proof
    assume "matchHere (x # xs) \<noteq> []"
    then obtain m where "m \<in> set (matchHere (x # xs))" by (cases "matchHere (x # xs)") auto
    from matchHere_D [OF this] obtain a b c post where
      "x # xs = [] @ dq # a @ CHR ''@'' # b @ CHR ''.'' # c @ dq # post"
      "a \<noteq> []" "b \<noteq> []" "c \<noteq> []" "nl \<notin> set a" "nl \<notin> set b" "nl \<notin> set c"
      by auto
    then show ?thesis unfolding hasQuotedEmail_def by blast
  next
    assume "hasQuotedEmail xs"
    then obtain pre a b c post where
      "xs = pre @ dq # a @ CHR ''@'' # b @ CHR ''.'' # c @ dq # post"
      and h: "a \<noteq> []" "b \<noteq> []" "c \<noteq> []" "nl \<notin> set a" "nl \<notin> set b" "nl \<notin> set c"
      unfolding hasQuotedEmail_def by blast
    then have "x # xs = (x # pre) @ dq # a @ CHR ''@'' # b @ CHR ''.'' # c @ dq # post" by simp
    with h show ?thesis unfolding hasQuotedEmail_def by blast
  qed
qed

lemma FindStringSubmatch1_None_iff: "FindStringSubmatch1 v = None \<longleftrightarrow> \<not> hasQuotedEmail v"
proof (induction v)
  case Nil
  show ?case by (simp add: hasQuotedEmail_Nil)
next
  case (Cons x xs)
  show ?case
    by (cases "matchHere (x # xs)") (simp_all add: hasQuotedEmail_Cons Cons.IH)
qed

lemma FindStringSubmatch1_Some_D:
  "FindStringSubmatch1 v = Some m \<Longrightarrow>
   \<exists>pre a b c post. m = a @ CHR ''@'' # b @ CHR ''.'' # c \<and>
      v = pre @ dq # a @ CHR ''@'' # b @ CHR ''.'' # c @ dq # post \<and>
      a \<noteq> [] \<and> b \<noteq> [] \<and> c \<noteq> [] \<and> nl \<notin> set a \<and> nl \<notin> set b \<and> nl \<notin> set c"
proof (induction v)
  case Nil
  then show ?case by simp
next
  case (Cons x xs)
  show ?case
  proof (cases "matchHere (x # xs)")
    case Nil
    with Cons.prems have "FindStringSubmatch1 xs = Some m" by simp
    from Cons.IH [OF this] obtain pre a b c post where
      "m = a @ CHR ''@'' # b @ CHR ''.'' # c"
      "xs = pre @ dq # a @ CHR ''@'' # b @ CHR ''.'' # c @ dq # post"
      "a \<noteq> []" "b \<noteq> []" "c \<noteq> []" "nl \<notin> set a" "nl \<notin> set b" "nl \<notin> set c"
      by blast
    then have "m = a @ CHR ''@'' # b @ CHR ''.'' # c \<and>
      x # xs = (x # pre) @ dq # a @ CHR ''@'' # b @ CHR ''.'' # c @ dq # post \<and>
      a \<noteq> [] \<and> b \<noteq> [] \<and> c \<noteq> [] \<and> nl \<notin> set a \<and> nl \<notin> set b \<and> nl \<notin> set c"
      by simp
    then show ?thesis by blast
  next
    case (Cons m' ms)
    with Cons.prems have "m' = m" by simp
    with Cons have "m \<in> set (matchHere (x # xs))" by simp
    from matchHere_D [OF this] obtain a b c post where
      "m = a @ CHR ''@'' # b @ CHR ''.'' # c \<and>
       x # xs = [] @ dq # a @ CHR ''@'' # b @ CHR ''.'' # c @ dq # post \<and>
       a \<noteq> [] \<and> b \<noteq> [] \<and> c \<noteq> [] \<and> nl \<notin> set a \<and> nl \<notin> set b \<and> nl \<notin> set c"
      by auto
    then show ?thesis by blast
  qed
qed

lemma hasQuotedEmail_loose: "hasQuotedEmail v \<Longrightarrow> containsQuotedAtDot v"
proof -
  assume "hasQuotedEmail v"
  then obtain pre a b c post where
    "v = pre @ dq # a @ CHR ''@'' # b @ CHR ''.'' # c @ dq # post"
    unfolding hasQuotedEmail_def by blast
  then have "v = pre @ dq # (a @ CHR ''@'' # b @ CHR ''.'' # c) @ dq # post \<and>
     CHR ''@'' \<in> set (a @ CHR ''@'' # b @ CHR ''.'' # c) \<and>
     CHR ''.'' \<in> set (a @ CHR ''@'' # b @ CHR ''.'' # c)"
    by simp
  then show ?thesis unfolding containsQuotedAtDot_def by blast
qed

lemma annotations_panic_iff:
  "generateProwJobAnnotations repo job ex = Inl IndexOutOfRange \<longleftrightarrow>
     (\<exists>v. ex ''alert_options'' = Some v \<and> FindStringSubmatch1 v = None)"
  by (simp add: generateProwJobAnnotations_def Let_def split: option.splits)

lemma annotations_rendered:
  "generateProwJobAnnotations repo job ex = Inr anns \<Longrightarrow>
   anns = [''  testgrid-dashboards: '' @ repo, ''  testgrid-tab-name: '' @ job] @
          List.map_filter (renderKey ex) annotationKeys"
  by (simp add: generateProwJobAnnotations_def Let_def List.map_filter_simps renderKey_def
        annotationLine_def annotationKeys_def split: option.splits)


lemma twoQuoted_no_quoted: "\<not> holdsQuotedAtDot twoQuoted"
proof
  assume "holdsQuotedAtDot twoQuoted"
  then obtain pre q post where v: "twoQuoted = pre @ dq # q @ dq # post"
    and q: "dq \<notin> set q" "CHR ''@'' \<in> set q" "CHR ''.'' \<in> set q"
    unfolding holdsQuotedAtDot_def by blast
  from v q show False
    unfolding twoQuoted_def
    by (auto simp: append_eq_Cons_conv Cons_eq_append_conv)
qed

lemma twoQuoted_match: "FindStringSubmatch1 twoQuoted = Some (''a@b'' @ dq # '' '' @ dq # ''c.d'')"
  by code_simp

text \<open>
  C6, as stated: where \<open>alert_options\<close> is present and its value contains no quoted
  string with an \<open>@\<close> and a \<open>.\<close>, the function fails. It does not on the value
  \<open>"a@b" "c.d"\<close>: neither quoted string holds both, but the greedy pattern matches from
  the first quote to the last and the function returns an email line.
\<close>

theorem annotations_quoted_counterexample:
  "\<not> holdsQuotedAtDot twoQuoted \<and>
   generateProwJobAnnotations ''serving'' ''continuous'' [''alert_options'' \<mapsto> twoQuoted] =
     Inr [''  testgrid-dashboards: serving'',
          ''  testgrid-tab-name: continuous'',
          ''  testgrid-alert-email: '' @ dq # (''a@b'' @ dq # '' '' @ dq # ''c.d'') @ [dq]]"
proof -
  have "generateProwJobAnnotations ''serving'' ''continuous'' [''alert_options'' \<mapsto> twoQuoted] =
     Inr [''  testgrid-dashboards: serving'',
          ''  testgrid-tab-name: continuous'',
          ''  testgrid-alert-email: '' @ dq # (''a@b'' @ dq # '' '' @ dq # ''c.d'') @ [dq]]"
    using twoQuoted_match
    by (simp add: generateProwJobAnnotations_def Let_def del: FindStringSubmatch1.simps)
  with twoQuoted_no_quoted show ?thesis by blast
qed

text \<open>
  C6, amended. For every extras mapping, \<open>generateProwJobAnnotations\<close> returns, after the
  two lines that name the dashboard and the tab, the lines of the keys
  \<open>alert_stale_results_hours\<close>, \<open>short_text_metric\<close>, \<open>alert_options\<close> (as the email
  embedded in its value) and \<open>num_failures_to_alert\<close>, in this order, a key that is
  absent giving no line. It panics, and returns nothing, exactly when \<open>alert_options\<close>
  is present and its value has no match of the pattern: a quote, then on one line some
  text, an \<open>@\<close>, some text, a \<open>.\<close>, some text and a quote, where the text may hold quotes
  itself. In particular it panics when no two quotes of the value enclose an \<open>@\<close> and
  a \<open>.\<close>.
\<close>

theorem generateProwJobAnnotations_order:
  "(generateProwJobAnnotations repo job ex = Inl IndexOutOfRange \<longleftrightarrow>
      (\<exists>v. ex ''alert_options'' = Some v \<and> \<not> hasQuotedEmail v)) \<and>
   (\<forall>v. ex ''alert_options'' = Some v \<and> \<not> containsQuotedAtDot v \<longrightarrow>
      generateProwJobAnnotations repo job ex = Inl IndexOutOfRange) \<and>
   (\<forall>anns. generateProwJobAnnotations repo job ex = Inr anns \<longrightarrow>
      anns = [''  testgrid-dashboards: '' @ repo, ''  testgrid-tab-name: '' @ job] @
             List.map_filter (renderKey ex) annotationKeys \<and>
      (\<forall>v. ex ''alert_options'' = Some v \<longrightarrow>
         (\<exists>pre a b c post.
            v = pre @ dq # a @ CHR ''@'' # b @ CHR ''.'' # c @ dq # post \<and>
            renderKey ex ''alert_options'' =
              Some (''  testgrid-alert-email: '' @ dq # (a @ CHR ''@'' # b @ CHR ''.'' # c) @ [dq]))))"
proof -
  have 1: "generateProwJobAnnotations repo job ex = Inl IndexOutOfRange \<longleftrightarrow>
      (\<exists>v. ex ''alert_options'' = Some v \<and> \<not> hasQuotedEmail v)"
    by (simp only: annotations_panic_iff FindStringSubmatch1_None_iff)
  have 2: "generateProwJobAnnotations repo job ex = Inl IndexOutOfRange"
    if "ex ''alert_options'' = Some v \<and> \<not> containsQuotedAtDot v" for v
    using that 1 hasQuotedEmail_loose by blast
  have 3: "anns = [''  testgrid-dashboards: '' @ repo, ''  testgrid-tab-name: '' @ job] @
             List.map_filter (renderKey ex) annotationKeys"
    if "generateProwJobAnnotations repo job ex = Inr anns" for anns
    using that by (rule annotations_rendered)
  have 4: "\<exists>pre a b c post.
            v = pre @ dq # a @ CHR ''@'' # b @ CHR ''.'' # c @ dq # post \<and>
            renderKey ex ''alert_options'' =
              Some (''  testgrid-alert-email: '' @ dq # (a @ CHR ''@'' # b @ CHR ''.'' # c) @ [dq])"
    if r: "generateProwJobAnnotations repo job ex = Inr anns" and v: "ex ''alert_options'' = Some v"
    for anns v
  proof -
    from r have "generateProwJobAnnotations repo job ex \<noteq> Inl IndexOutOfRange" by simp
    with v have "FindStringSubmatch1 v \<noteq> None" by (auto simp: annotations_panic_iff)
    then obtain m where m: "FindStringSubmatch1 v = Some m" by blast
    from FindStringSubmatch1_Some_D [OF m] obtain pre a b c post where
      d: "m = a @ CHR ''@'' # b @ CHR ''.'' # c"
         "v = pre @ dq # a @ CHR ''@'' # b @ CHR ''.'' # c @ dq # post"
      by blast
    have "renderKey ex ''alert_options'' = Some (''  testgrid-alert-email: '' @ dq # m @ [dq])"
      using v m by (simp add: renderKey_def annotationLine_def del: FindStringSubmatch1.simps)
    with d show ?thesis by blast
  qed
  from 1 2 3 4 show ?thesis by blast
qed

theorem generateProwJobAnnotations_order_witness:
  "generateProwJobAnnotations ''serving'' ''dot-release''
      (getTestgroupExtras exampleEnv ''knative'' ''dot-release'') =
     Inr [''  testgrid-dashboards: serving'',
          ''  testgrid-tab-name: dot-release'',
          ''  testgrid-alert-stale-results-hours: '' @ dq # ''170'' @ [dq],
          ''  testgrid-alert-email: '' @ dq # ''serverless-engprod-sea@google.com'' @ [dq],
          ''  testgrid-num-failures-to-alert: '' @ dq # ''1'' @ [dq]] \<and>
   generateProwJobAnnotations ''serving'' ''dot-release'' [''alert_options'' \<mapsto> ''nobody'']
     = Inl IndexOutOfRange"
proof -
  let ?ex = "getTestgroupExtras exampleEnv ''knative'' ''dot-release''"
  note ok = generateProwJobAnnotations_order [of "''serving''" "''dot-release''" ?ex]
  note bad = generateProwJobAnnotations_order
    [of "''serving''" "''dot-release''" "[''alert_options'' \<mapsto> ''nobody'']"]
  have v: "?ex ''alert_options'' =
      Some (nl # ''    alert_mail_to_addresses: '' @ dq # ''serverless-engprod-sea@google.com'' @ [dq])"
    by (simp add: getTestgroupExtras_def)
  have "hasQuotedEmail (nl # ''    alert_mail_to_addresses: '' @ dq # ''serverless-engprod-sea@google.com'' @ [dq])"
    using email4 FindStringSubmatch1_None_iff by (metis option.distinct(1))
  with v ok have "generateProwJobAnnotations ''serving'' ''dot-release'' ?ex \<noteq> Inl IndexOutOfRange"
    by (metis option.inject)
  then obtain anns where a: "generateProwJobAnnotations ''serving'' ''dot-release'' ?ex = Inr anns"
    by (cases "generateProwJobAnnotations ''serving'' ''dot-release'' ?ex") (auto intro: panic.exhaust)
  with ok have "anns = [''  testgrid-dashboards: '' @ ''serving'', ''  testgrid-tab-name: '' @ ''dot-release''] @
             List.map_filter (renderKey ?ex) annotationKeys"
    by blast
  also have "\<dots> = [''  testgrid-dashboards: serving'',
          ''  testgrid-tab-name: dot-release'',
          ''  testgrid-alert-stale-results-hours: '' @ dq # ''170'' @ [dq],
          ''  testgrid-alert-email: '' @ dq # ''serverless-engprod-sea@google.com'' @ [dq],
          ''  testgrid-num-failures-to-alert: '' @ dq # ''1'' @ [dq]]"
    using email4
    by (simp add: List.map_filter_simps renderKey_def annotationLine_def annotationKeys_def
        getTestgroupExtras_def del: FindStringSubmatch1.simps)
  finally have A: "generateProwJobAnnotations ''serving'' ''dot-release'' ?ex =
     Inr [''  testgrid-dashboards: serving'',
          ''  testgrid-tab-name: dot-release'',
          ''  testgrid-alert-stale-results-hours: '' @ dq # ''170'' @ [dq],
          ''  testgrid-alert-email: '' @ dq # ''serverless-engprod-sea@google.com'' @ [dq],
          ''  testgrid-num-failures-to-alert: '' @ dq # ''1'' @ [dq]]"
    using a by simp
  have "\<not> containsQuotedAtDot ''nobody''"
  proof
    assume "containsQuotedAtDot ''nobody''"
    then obtain pre q post where "''nobody'' = pre @ dq # q @ dq # post"
      unfolding containsQuotedAtDot_def by blast
    then have "dq \<in> set ''nobody''" by (metis in_set_conv_decomp)
    then show False by simp
  qed
  with bad have B: "generateProwJobAnnotations ''serving'' ''dot-release'' [''alert_options'' \<mapsto> ''nobody'']
     = Inl IndexOutOfRange"
    by simp
  from A B show ?thesis by blast
qed


section \<open>The dashboard groups of the non-aligned entries: theorems\<close>

lemma collectGroups_snoc:
  "collectGroups acc (tgs @ [tg]) = collectGroups_step (collectGroups acc tgs) tg"
  by (induction tgs arbitrary: acc) simp_all

lemma groupMembers_snoc:
  "groupMembers (tgs @ [tg]) g =
     (if DashboardGroup tg = g \<and> DashboardName tg \<notin> set (groupMembers tgs g)
      then groupMembers tgs g @ [DashboardName tg] else groupMembers tgs g)"
  by (simp add: groupMembers_def firstSeen_snoc set_firstSeen)

lemma groupMembers_absent: "g \<notin> DashboardGroup ` set tgs \<Longrightarrow> groupMembers tgs g = []"
proof -
  assume "g \<notin> DashboardGroup ` set tgs"
  then have "filter (\<lambda>tg. DashboardGroup tg = g) tgs = []"
    by (auto simp: filter_empty_conv)
  then show ?thesis by (simp add: groupMembers_def)
qed

lemma collectGroups_inv:
  "collectGroups ([], Map.empty) tgs =
     (firstSeen (map DashboardGroup tgs),
      (\<lambda>g. if g \<in> DashboardGroup ` set tgs then Some (groupMembers tgs g) else None))"
proof (induction tgs rule: rev_induct)
  case Nil
  show ?case by simp
next
  case (snoc tg tgs)
  show ?case
    unfolding collectGroups_snoc snoc.IH
    by (auto simp: collectGroups_step_def Let_def lookupList_def strExists_iff firstSeen_snoc
        groupMembers_snoc groupMembers_absent fun_eq_iff)
qed

lemma emitGroups_map:
  "emitGroups dg ks out =
     out @ map (\<lambda>g. DashboardGroupEntry \<lparr> GroupName = g, RepoNames = lookupList dg g \<rparr>) ks"
  by (induction ks arbitrary: out) (simp_all add: executeDashboardGroupTemplate_def)

lemma firstSeen_remdups: "firstSeen xs = rev (remdups (rev xs))"
  by (induction xs rule: rev_induct) (simp_all add: firstSeen_snoc)

lemma generateNonAlignedDashboardGroups_eq:
  "generateNonAlignedDashboardGroups t out =
     out @ map (\<lambda>g. DashboardGroupEntry
                  \<lparr> GroupName = g, RepoNames = groupMembers (nonAligned t) g \<rparr>)
             (firstSeen (map DashboardGroup (nonAligned t)))"
proof -
  have "lookupList (\<lambda>g. if g \<in> DashboardGroup ` set (nonAligned t)
                         then Some (groupMembers (nonAligned t) g) else None) g
        = groupMembers (nonAligned t) g" for g
    by (simp add: lookupList_def groupMembers_absent)
  then show ?thesis
    by (simp add: generateNonAlignedDashboardGroups_def collectGroups_inv emitGroups_map)
qed


text \<open>
  C7. For every list of non-aligned entries, \<open>generateNonAlignedDashboardGroups\<close> emits
  one group per distinct \<open>DashboardGroup\<close> value, in first-seen order, and the members
  of a group are the \<open>DashboardName\<close> values observed under it, each exactly once, in
  first-seen order. In particular two entries of one group with different dashboard
  names give one group that lists both names once each.
\<close>

theorem generateNonAlignedDashboardGroups_first_seen:
  "generateNonAlignedDashboardGroups t out =
     out @ map (\<lambda>g. DashboardGroupEntry
                  \<lparr> GroupName = g, RepoNames = groupMembers (nonAligned t) g \<rparr>)
             (firstSeen (map DashboardGroup (nonAligned t))) \<and>
   distinct (firstSeen (map DashboardGroup (nonAligned t))) \<and>
   set (firstSeen (map DashboardGroup (nonAligned t))) = DashboardGroup ` set (nonAligned t) \<and>
   (\<forall>g. distinct (groupMembers (nonAligned t) g) \<and>
        set (groupMembers (nonAligned t) g) =
          DashboardName ` {tg \<in> set (nonAligned t). DashboardGroup tg = g}) \<and>
   (\<forall>n1 n2. nonAligned t = [n1, n2] \<and> DashboardGroup n1 = DashboardGroup n2 \<and>
        DashboardName n1 \<noteq> DashboardName n2 \<longrightarrow>
      generateNonAlignedDashboardGroups t out =
        out @ [DashboardGroupEntry
                 \<lparr> GroupName = DashboardGroup n1,
                   RepoNames = [DashboardName n1, DashboardName n2] \<rparr>])"
proof -
  have 5: "generateNonAlignedDashboardGroups t out =
        out @ [DashboardGroupEntry
                 \<lparr> GroupName = DashboardGroup n1,
                   RepoNames = [DashboardName n1, DashboardName n2] \<rparr>]"
    if "nonAligned t = [n1, n2] \<and> DashboardGroup n1 = DashboardGroup n2 \<and>
        DashboardName n1 \<noteq> DashboardName n2" for n1 n2
    using that by (simp add: generateNonAlignedDashboardGroups_eq groupMembers_def)
  have 4: "distinct (groupMembers (nonAligned t) g) \<and>
        set (groupMembers (nonAligned t) g) =
          DashboardName ` {tg \<in> set (nonAligned t). DashboardGroup tg = g}" for g
    by (simp add: groupMembers_def distinct_firstSeen set_firstSeen)
  show ?thesis
    using 4 5 by (simp add: generateNonAlignedDashboardGroups_eq distinct_firstSeen set_firstSeen)
qed

theorem generateNonAlignedDashboardGroups_first_seen_witness:
  "generateNonAlignedDashboardGroups
     (AddNonAlignedTest exampleEntry2 (AddNonAlignedTest exampleEntry1 NewTestGridMetaData)) [] =
   [DashboardGroupEntry \<lparr> GroupName = ''perf'', RepoNames = [''perf-one'', ''perf-two''] \<rparr>]"
proof -
  let ?t = "AddNonAlignedTest exampleEntry2 (AddNonAlignedTest exampleEntry1 NewTestGridMetaData)"
  have "nonAligned ?t = [exampleEntry1, exampleEntry2] \<and>
        DashboardGroup exampleEntry1 = DashboardGroup exampleEntry2 \<and>
        DashboardName exampleEntry1 \<noteq> DashboardName exampleEntry2"
    by (simp add: AddNonAlignedTest_def NewTestGridMetaData_def exampleEntry1_def exampleEntry2_def)
  with generateNonAlignedDashboardGroups_first_seen [of ?t "[]"]
  have "generateNonAlignedDashboardGroups ?t [] =
        [] @ [DashboardGroupEntry
                 \<lparr> GroupName = DashboardGroup exampleEntry1,
                   RepoNames = [DashboardName exampleEntry1, DashboardName exampleEntry2] \<rparr>]"
    by blast
  then show ?thesis by (simp add: exampleEntry1_def exampleEntry2_def)
qed

end
